theory Spec2Isabelle
  imports Main "HOL-Library.Multiset" "HOL-Library.Sublist"
begin

section \<open>Routing engine (Indexer/src/server.ts)\<close>

subsection \<open>Token graph and bounded path enumeration\<close>

text \<open>
  Token identities are the address strings of the HTTP layer. The graph is the
  \<^verbatim>\<open>Map<string, string[]>\<close> of \<^verbatim>\<open>buildTokenGraph\<close>: a partial map from
  a token to the array of its neighbours, in insertion order and with repetitions.
\<close>

type_synonym token = string
type_synonym graph = "token \<rightharpoonup> token list"

text \<open>\<^verbatim>\<open>Array.prototype.join(',')\<close> on an array of strings.\<close>

fun join_comma :: "string list \<Rightarrow> string" where
  "join_comma [] = []"
| "join_comma [x] = x"
| "join_comma (x # y # ys) = x @ '','' @ join_comma (y # ys)"

text \<open>\<^verbatim>\<open>graph.get(currentNode) || []\<close>; the last element of an empty array is
  \<^verbatim>\<open>undefined\<close>, which is no key of the map.\<close>

definition neighbors_of :: "graph \<Rightarrow> token option \<Rightarrow> token list" where
  "neighbors_of graph currentNode =
     (case currentNode of
        None \<Rightarrow> []
      | Some n \<Rightarrow> (case graph n of None \<Rightarrow> [] | Some ns \<Rightarrow> ns))"

definition last_opt :: "'a list \<Rightarrow> 'a option" where
  "last_opt xs = (if xs = [] then None else Some (last xs))"

text \<open>
  The \<^verbatim>\<open>while (queue.length > 0)\<close> loop of \<^verbatim>\<open>findAllPathsBFS\<close>. The state
  is the queue of partial paths, the set of memoised path keys and the result array.
\<close>

function BFS_loop ::
  "graph \<Rightarrow> token \<Rightarrow> int \<Rightarrow> token list list \<Rightarrow> string list \<Rightarrow> token list list
     \<Rightarrow> token list list" where
  "BFS_loop graph end maxDepth [] visited paths = paths"
| "BFS_loop graph end maxDepth (currentPath # queue) visited paths =
     (let currentNode = last_opt currentPath in
      if int (length currentPath) > maxDepth + 1 then
        BFS_loop graph end maxDepth queue visited paths
      else if currentNode = Some end \<and> length currentPath > 1 then
        BFS_loop graph end maxDepth queue visited (paths @ [currentPath])
      else
        let pathKey = join_comma currentPath in
        if pathKey \<in> set visited then
          BFS_loop graph end maxDepth queue visited paths
        else
          BFS_loop graph end maxDepth
            (queue @ map (\<lambda>neighbor. currentPath @ [neighbor])
                      (filter (\<lambda>neighbor. neighbor \<notin> set currentPath)
                         (neighbors_of graph currentNode)))
            (pathKey # visited) paths)"
  by pat_completeness auto

text \<open>Every step either drops the head of the queue or replaces it by finitely many
  strictly longer paths, all within the depth bound: the multiset of remaining
  depths decreases.\<close>

definition depth_left :: "int \<Rightarrow> token list \<Rightarrow> nat" where
  "depth_left maxDepth p = nat (maxDepth + 2) - length p"

termination BFS_loop
proof (relation "inv_image (mult {(a, b). a < b})
    (\<lambda>(graph, end, maxDepth, queue, visited, paths). mset (map (depth_left maxDepth) queue))",
    goal_cases)
  case 1
  show ?case
    by (intro wf_inv_image wf_mult) (simp add: wf_less[unfolded less_than_def[symmetric]] wf)
next
  case (2 graph "end" maxDepth currentPath queue visited paths x)
  have "(mset (map (depth_left maxDepth) queue) + {#},
         mset (map (depth_left maxDepth) queue) + {#depth_left maxDepth currentPath#})
        \<in> mult {(a, b). a < b}"
    by (rule one_step_implies_mult) auto
  then show ?case by simp
next
  case (3 graph "end" maxDepth currentPath queue visited paths x)
  have "(mset (map (depth_left maxDepth) queue) + {#},
         mset (map (depth_left maxDepth) queue) + {#depth_left maxDepth currentPath#})
        \<in> mult {(a, b). a < b}"
    by (rule one_step_implies_mult) auto
  then show ?case by simp
next
  case (4 graph "end" maxDepth currentPath queue visited paths x xa)
  have "(mset (map (depth_left maxDepth) queue) + {#},
         mset (map (depth_left maxDepth) queue) + {#depth_left maxDepth currentPath#})
        \<in> mult {(a, b). a < b}"
    by (rule one_step_implies_mult) auto
  then show ?case by simp
next
  case (5 graph "end" maxDepth currentPath queue visited paths x xa)
  let ?kids = "map (\<lambda>neighbor. currentPath @ [neighbor])
                 (filter (\<lambda>neighbor. neighbor \<notin> set currentPath) (neighbors_of graph x))"
  from 5 have len: "int (length currentPath) \<le> maxDepth + 1" by simp
  have "(mset (map (depth_left maxDepth) queue) + mset (map (depth_left maxDepth) ?kids),
         mset (map (depth_left maxDepth) queue) + {#depth_left maxDepth currentPath#})
        \<in> mult {(a, b). a < b}"
  proof (rule one_step_implies_mult)
    show "{#depth_left maxDepth currentPath#} \<noteq> {#}" by simp
    show "\<forall>k\<in>set_mset (mset (map (depth_left maxDepth) ?kids)).
            \<exists>j\<in>set_mset {#depth_left maxDepth currentPath#}. (k, j) \<in> {(a, b). a < b}"
      using len by (auto simp: depth_left_def)
  qed
  then show ?case by (simp add: multiset.map_comp comp_def)
qed

definition findAllPathsBFS :: "graph \<Rightarrow> token \<Rightarrow> token \<Rightarrow> int \<Rightarrow> token list list" where
  "findAllPathsBFS graph start end maxDepth = BFS_loop graph end maxDepth [[start]] [] []"


subsection \<open>Rows of the relational store (migration.sql)\<close>

text \<open>
  The four tables of the schema. \<^verbatim>\<open>createdAt\<close> columns are filled by the store's
  clock and are not modelled; rows are kept in insertion order. The amount columns
  are \<^verbatim>\<open>TEXT\<close>.
\<close>

record token_row =
  token_id :: int
  token_address :: string
  token_symbol :: string
  token_name :: "string option"
  token_decimals :: int

record pool_row =
  pool_id :: int
  pool_address :: string
  tokenAId :: int
  tokenBId :: int

record liquidity_row =
  liquidity_id :: int
  liquidity_poolId :: int
  provider :: string
  amountA :: string
  amountB :: string

record swap_row =
  swap_id :: int
  swap_poolId :: int
  trader :: string
  amountIn :: string
  amountOut :: string
  tokenIn :: string
  tokenOut :: string

record db =
  tokens :: "token_row list"
  pools :: "pool_row list"
  liquidity :: "liquidity_row list"
  swaps :: "swap_row list"

text \<open>A pool as returned by a query with \<^verbatim>\<open>include: { tokenA: true, tokenB: true }\<close>.\<close>

record pool_incl = pool_row +
  tokenA :: token_row
  tokenB :: token_row

definition find_token_by_id :: "db \<Rightarrow> int \<Rightarrow> token_row option" where
  "find_token_by_id d i = find (\<lambda>t. token_id t = i) (tokens d)"

definition include_tokens :: "db \<Rightarrow> pool_row \<Rightarrow> pool_incl option" where
  "include_tokens d p =
     (case find_token_by_id d (tokenAId p) of
        None \<Rightarrow> None
      | Some ta \<Rightarrow>
          (case find_token_by_id d (tokenBId p) of
             None \<Rightarrow> None
           | Some tb \<Rightarrow> Some (pool_row.extend p \<lparr>tokenA = ta, tokenB = tb\<rparr>)))"

text \<open>\<^verbatim>\<open>prisma.pool.findMany({ include: { tokenA: true, tokenB: true } })\<close>. The
  foreign keys of the schema leave no pool without its two tokens.\<close>

definition pool_findMany :: "db \<Rightarrow> pool_incl list" where
  "pool_findMany d = List.map_filter (include_tokens d) (pools d)"

subsection \<open>\<^verbatim>\<open>buildTokenGraph\<close>\<close>

text \<open>\<^verbatim>\<open>graph.get(k).push(v)\<close>; the key is always present when it is called.\<close>

definition push_neighbor :: "graph \<Rightarrow> token \<Rightarrow> token \<Rightarrow> graph" where
  "push_neighbor graph k v =
     (case graph k of None \<Rightarrow> graph | Some ns \<Rightarrow> graph(k \<mapsto> ns @ [v]))"

definition ensure_key :: "graph \<Rightarrow> token \<Rightarrow> graph" where
  "ensure_key graph k = (if graph k = None then graph(k \<mapsto> []) else graph)"

definition add_pool :: "graph \<Rightarrow> pool_incl \<Rightarrow> graph" where
  "add_pool graph pool =
     (let tA = token_address (tokenA pool);
          tB = token_address (tokenB pool);
          graph = ensure_key graph tA;
          graph = ensure_key graph tB;
          graph = push_neighbor graph tA tB;
          graph = push_neighbor graph tB tA
      in graph)"

definition buildTokenGraph :: "pool_incl list \<Rightarrow> graph" where
  "buildTokenGraph ps = foldl add_pool Map.empty ps"

subsection \<open>Decimal rendering of big integers\<close>

text \<open>\<^verbatim>\<open>BigInt.prototype.toString()\<close>, and the conversion of a decimal string back
  to a big integer that \<^verbatim>\<open>bigint > string\<close> performs.\<close>

definition digit_char :: "nat \<Rightarrow> char" where
  "digit_char d = ''0123456789'' ! d"

fun toString_nat :: "nat \<Rightarrow> string" where
  "toString_nat n =
     (if n < 10 then [digit_char n] else toString_nat (n div 10) @ [digit_char (n mod 10)])"

declare toString_nat.simps [simp del]

definition toString_int :: "int \<Rightarrow> string" where
  "toString_int i =
     (if i < 0 then CHR ''-'' # toString_nat (nat (- i)) else toString_nat (nat i))"

definition digit_val :: "char \<Rightarrow> nat option" where
  "digit_val c =
     (let k = (of_char c :: nat) in if 48 \<le> k \<and> k \<le> 57 then Some (k - 48) else None)"

fun parse_digits :: "nat \<Rightarrow> string \<Rightarrow> nat option" where
  "parse_digits acc [] = Some acc"
| "parse_digits acc (c # cs) =
     (case digit_val c of None \<Rightarrow> None | Some d \<Rightarrow> parse_digits (acc * 10 + d) cs)"

text \<open>Only strings of decimal digits are read back: \<^verbatim>\<open>bestOutput\<close> never holds
  anything else. A string that is no integer makes the comparison false.\<close>

definition StringToBigInt :: "string \<Rightarrow> nat option" where
  "StringToBigInt s = parse_digits 0 s"

definition bigint_gt_string :: "nat \<Rightarrow> string \<Rightarrow> bool" where
  "bigint_gt_string output s =
     (case StringToBigInt s of None \<Rightarrow> False | Some v \<Rightarrow> output > v)"

subsection \<open>\<^verbatim>\<open>estimateMultiHopGas\<close> and \<^verbatim>\<open>findOptimalPath\<close>\<close>

text \<open>The gas heuristic works on big integers. Nothing inside its \<^verbatim>\<open>try\<close> can throw
  on the length of an array, so the fallback of its \<^verbatim>\<open>catch\<close> is never returned.\<close>

definition estimateMultiHopGas :: "'a list \<Rightarrow> int" where
  "estimateMultiHopGas path =
     (let baseGas = 60000; gasPerHop = 120000; hops = int (length path) - 1
      in baseGas + gasPerHop * hops)"

record route =
  route_path :: "token list"
  expectedOutput :: string
  hops :: int
  gasEstimate :: string

text \<open>The object \<^verbatim>\<open>paths\<close>; its field \<^verbatim>\<open>gasEstimates\<close> is the constant \<^verbatim>\<open>{}\<close> and is
  left out. \<^verbatim>\<open>null\<close> is \<open>None\<close>.\<close>

record paths_result =
  direct :: "route option"
  optimal :: "route option"
  allPaths :: "route list"

record eval_state =
  result :: paths_result
  bestPath :: "token list option"
  bestOutput :: string

text \<open>
  The router's \<^verbatim>\<open>getAmountsOut(testAmount, path)\<close> is a call to the chain: it is a
  parameter, \<open>None\<close> when the call rejects. One iteration of the
  \<^verbatim>\<open>for (const path of allPaths)\<close> loop; a rejected quote, or an empty amounts
  array (whose last element is \<^verbatim>\<open>undefined\<close>), lands in the \<^verbatim>\<open>catch\<close> before
  anything is recorded.
\<close>

type_synonym quote_fn = "string \<Rightarrow> token list \<Rightarrow> nat list option"

definition evaluate_path :: "quote_fn \<Rightarrow> string \<Rightarrow> eval_state \<Rightarrow> token list \<Rightarrow> eval_state" where
  "evaluate_path getAmountsOut testAmount st path =
     (case getAmountsOut testAmount path of
        None \<Rightarrow> st
      | Some amounts \<Rightarrow>
          (case last_opt amounts of
             None \<Rightarrow> st
           | Some output \<Rightarrow>
               let entry = \<lparr>route_path = path, expectedOutput = toString_nat output,
                             hops = int (length path) - 1,
                             gasEstimate = toString_int (estimateMultiHopGas path)\<rparr>;
                   st = st\<lparr>result := (result st)\<lparr>allPaths := allPaths (result st) @ [entry]\<rparr>\<rparr>;
                   st = (if bigint_gt_string output (bestOutput st)
                         then st\<lparr>bestOutput := toString_nat output, bestPath := Some path\<rparr>
                         else st);
                   st = (if length path = 2
                         then st\<lparr>result := (result st)\<lparr>direct := Some (entry\<lparr>hops := 1\<rparr>)\<rparr>\<rparr>
                         else st)
               in st))"

definition findOptimalPath ::
  "quote_fn \<Rightarrow> pool_incl list \<Rightarrow> token \<Rightarrow> token \<Rightarrow> string \<Rightarrow> paths_result" where
  "findOptimalPath getAmountsOut ps tknA tknB testAmount =
     (let paths0 = \<lparr>direct = None, optimal = None, allPaths = []\<rparr>;
          graph = buildTokenGraph ps;
          found = findAllPathsBFS graph tknA tknB 4
      in if length found = 0 then paths0
         else
           let st = foldl (evaluate_path getAmountsOut testAmount)
                      \<lparr>result = paths0, bestPath = None, bestOutput = ''0''\<rparr> found
           in (case bestPath st of
                 None \<Rightarrow> result st
               | Some best \<Rightarrow>
                   (result st)\<lparr>optimal := Some
                      \<lparr>route_path = best, expectedOutput = bestOutput st,
                       hops = int (length best) - 1,
                       gasEstimate = toString_int (estimateMultiHopGas best)\<rparr>\<rparr>))"


subsection \<open>HTTP endpoints\<close>

text \<open>
  A reply is either \<^verbatim>\<open>res.json(payload)\<close> (status 200) or
  \<^verbatim>\<open>res.status(code).json({ error: message })\<close>. A storage read that throws is the
  store \<open>None\<close>; it lands in the endpoint's \<^verbatim>\<open>catch\<close>.
\<close>

datatype 'a reply = Ok 'a | Fail nat string

text \<open>\<^verbatim>\<open>GET /optimal-path/:tokenA/:tokenB\<close>, with the optional query parameter
  \<^verbatim>\<open>amount\<close>.\<close>

definition optimal_path_endpoint ::
  "quote_fn \<Rightarrow> db option \<Rightarrow> token \<Rightarrow> token \<Rightarrow> string option \<Rightarrow> paths_result reply" where
  "optimal_path_endpoint getAmountsOut storage tknA tknB amount_param =
     (let amount = (case amount_param of None \<Rightarrow> ''1000000000000000000'' | Some a \<Rightarrow> a)
      in case storage of
           None \<Rightarrow> Fail 500 ''Failed to find optimal path''
         | Some d \<Rightarrow> Ok (findOptimalPath getAmountsOut (pool_findMany d) tknA tknB amount))"

text \<open>
  \<^verbatim>\<open>GET /all-paths/:tokenA/:tokenB\<close>. The argument of \<open>all_paths_maxHops\<close> is the
  value of \<^verbatim>\<open>parseInt(req.query.maxHops)\<close>: \<open>None\<close> is \<^verbatim>\<open>NaN\<close>, which is what
  an absent or non-numeric parameter parses to. \<^verbatim>\<open>x || 3\<close> replaces \<^verbatim>\<open>NaN\<close> and
  \<^verbatim>\<open>0\<close>, the two falsy numbers.
\<close>

definition all_paths_maxHops :: "int option \<Rightarrow> int" where
  "all_paths_maxHops parsed =
     min (case parsed of None \<Rightarrow> 3 | Some n \<Rightarrow> if n = 0 then 3 else n) 4"

record path_info =
  info_path :: "token list"
  info_hops :: int
  info_tokens :: nat

definition findAllPaths :: "pool_incl list \<Rightarrow> token \<Rightarrow> token \<Rightarrow> int \<Rightarrow> path_info list" where
  "findAllPaths ps tknA tknB maxHops =
     (let graph = buildTokenGraph ps;
          found = findAllPathsBFS graph tknA tknB maxHops
      in map (\<lambda>path. \<lparr>info_path = path, info_hops = int (length path) - 1,
                        info_tokens = length path\<rparr>) found)"

record all_paths_body =
  body_tokenA :: token
  body_tokenB :: token
  body_maxHops :: int
  pathsFound :: nat
  body_paths :: "path_info list"

definition all_paths_endpoint ::
  "db option \<Rightarrow> token \<Rightarrow> token \<Rightarrow> int option \<Rightarrow> all_paths_body reply" where
  "all_paths_endpoint storage tknA tknB parsed =
     (let maxHops = all_paths_maxHops parsed
      in case storage of
           None \<Rightarrow> Fail 500 ''Failed to find paths''
         | Some d \<Rightarrow>
             let found = findAllPaths (pool_findMany d) tknA tknB maxHops
             in Ok \<lparr>body_tokenA = tknA, body_tokenB = tknB, body_maxHops = maxHops,
                     pathsFound = length found, body_paths = found\<rparr>)"

text \<open>A token as sent to the client: \<^verbatim>\<open>decimals\<close> is rendered as a string.\<close>

record token_json =
  json_id :: int
  json_address :: string
  json_symbol :: string
  json_name :: "string option"
  json_decimals :: string

definition token_to_json :: "token_row \<Rightarrow> token_json" where
  "token_to_json t =
     \<lparr>json_id = token_id t, json_address = token_address t, json_symbol = token_symbol t,
      json_name = token_name t, json_decimals = toString_int (token_decimals t)\<rparr>"

text \<open>
  \<^verbatim>\<open>GET /pool/:id\<close> for an id parameter that \<^verbatim>\<open>Number\<close> reads as an integer. The
  sums run over JavaScript numbers: the conversion \<^verbatim>\<open>Number(text)\<close> and the number
  type with its \<open>0\<close> and \<open>+\<close> are parameters, and no law of arithmetic is assumed
  of them. Swaps are the 50 latest, newest first.
\<close>

record 'n pool_details =
  details_pool :: pool_row
  details_tokenA :: token_json
  details_tokenB :: token_json
  details_swaps :: "swap_row list"
  details_liquidity :: "liquidity_row list"
  reserveA :: 'n
  reserveB :: 'n
  tvl :: 'n

definition pool_endpoint ::
  "(string \<Rightarrow> 'n::{zero,plus}) \<Rightarrow> db option \<Rightarrow> int \<Rightarrow> 'n pool_details reply" where
  "pool_endpoint Number storage ID =
     (case storage of
        None \<Rightarrow> Fail 500 ''Failed to fetch pool details''
      | Some d \<Rightarrow>
          (case find (\<lambda>p. pool_id p = ID) (pools d) of
             None \<Rightarrow> Fail 404 ''Pool not Found''
           | Some p \<Rightarrow>
               (case include_tokens d p of
                  None \<Rightarrow> Fail 500 ''Failed to fetch pool details''
                | Some pool \<Rightarrow>
                    let liq = filter (\<lambda>l. liquidity_poolId l = ID) (liquidity d);
                        sws = take 50 (rev (filter (\<lambda>w. swap_poolId w = ID) (swaps d)));
                        rA = foldl (\<lambda>acc l. acc + Number (amountA l)) 0 liq;
                        rB = foldl (\<lambda>acc l. acc + Number (amountB l)) 0 liq
                    in Ok \<lparr>details_pool = p,
                            details_tokenA = token_to_json (tokenA pool),
                            details_tokenB = token_to_json (tokenB pool),
                            details_swaps = sws, details_liquidity = liq,
                            reserveA = rA, reserveB = rB, tvl = rA + rB\<rparr>)))"

text \<open>
  \<^verbatim>\<open>POST /multi-hop-quote\<close>. The fields \<^verbatim>\<open>path\<close> and \<^verbatim>\<open>amountIn\<close> of the parsed
  body are JSON values, or \<open>None\<close> when the body has no such field. The router call
  is a parameter, \<open>None\<close> when it rejects.
\<close>

datatype 'n json =
    JNull
  | JBool bool
  | JNumber 'n
  | JString string
  | JArray "'n json list"
  | JObject "(string \<times> 'n json) list"

definition isArray :: "'n json option \<Rightarrow> bool" where
  "isArray v = (case v of Some (JArray xs) \<Rightarrow> True | _ \<Rightarrow> False)"

definition elements :: "'n json option \<Rightarrow> 'n json list" where
  "elements v = (case v of Some (JArray xs) \<Rightarrow> xs | _ \<Rightarrow> [])"

record 'n quote_body =
  quote_path :: "'n json list"
  quote_amountIn :: "'n json option"
  quote_amountOut :: string
  quote_amounts :: "string list"
  quote_gasEstimate :: string
  quote_hops :: int

definition multi_hop_quote_endpoint ::
  "('n json option \<Rightarrow> 'n json list \<Rightarrow> nat list option) \<Rightarrow> 'n json option \<Rightarrow> 'n json option
     \<Rightarrow> 'n quote_body reply" where
  "multi_hop_quote_endpoint getAmountsOut path_field amountIn_field =
     (if \<not> isArray path_field \<or> length (elements path_field) < 2 then
        Fail 400 ''Invalid path''
      else
        (case getAmountsOut amountIn_field (elements path_field) of
           None \<Rightarrow> Fail 500 ''Failed to get quote''
         | Some amounts \<Rightarrow>
             let gas = estimateMultiHopGas (elements path_field)
             in (case last_opt amounts of
                   None \<Rightarrow> Fail 500 ''Failed to get quote''
                 | Some out \<Rightarrow>
                     Ok \<lparr>quote_path = elements path_field, quote_amountIn = amountIn_field,
                         quote_amountOut = toString_nat out,
                         quote_amounts = map toString_nat amounts,
                         quote_gasEstimate = toString_int gas,
                         quote_hops = int (length (elements path_field)) - 1\<rparr>)))"

text \<open>
  \<^verbatim>\<open>GET /portfolio/:user\<close>. \<^verbatim>\<open>groupedPositions\<close> is a \<^verbatim>\<open>Map\<close> iterated in insertion
  order: an association list with unique keys. \<^verbatim>\<open>Number(text)\<close> and the rendering
  of a number are parameters, as for the pool endpoint.
\<close>

record position = liquidity_row +
  position_pool :: pool_incl

record 'n position_group =
  group_pool :: string
  group_poolId :: int
  group_tokenA :: token_row
  group_tokenB :: token_row
  totalAmountA :: 'n
  totalAmountB :: 'n
  group_positions :: "position list"

definition liquidity_findMany :: "db \<Rightarrow> string \<Rightarrow> position list" where
  "liquidity_findMany d userAddress =
     List.map_filter
       (\<lambda>l. case find (\<lambda>p. pool_id p = liquidity_poolId l) (pools d) of
               None \<Rightarrow> None
             | Some p \<Rightarrow>
                 (case include_tokens d p of
                    None \<Rightarrow> None
                  | Some pool \<Rightarrow> Some (liquidity_row.extend l \<lparr>position_pool = pool\<rparr>)))
       (filter (\<lambda>l. provider l = userAddress) (liquidity d))"

definition group_position ::
  "(string \<Rightarrow> 'n::{zero,plus}) \<Rightarrow> (string \<times> 'n position_group) list \<Rightarrow> position
     \<Rightarrow> (string \<times> 'n position_group) list" where
  "group_position Number groupedPositions pos =
     (let poolKey = token_symbol (tokenA (position_pool pos)) @ ''-'' @
                    token_symbol (tokenB (position_pool pos));
          groupedPositions =
            (if map_of groupedPositions poolKey = None then
               groupedPositions @
                 [(poolKey,
                   \<lparr>group_pool = poolKey, group_poolId = liquidity_poolId pos,
                    group_tokenA = tokenA (position_pool pos),
                    group_tokenB = tokenB (position_pool pos),
                    totalAmountA = 0, totalAmountB = 0, group_positions = []\<rparr>)]
             else groupedPositions)
      in map (\<lambda>(k, group).
                if k = poolKey then
                  (k, group\<lparr>totalAmountA := totalAmountA group + Number (amountA pos),
                            totalAmountB := totalAmountB group + Number (amountB pos),
                            group_positions := group_positions group @ [pos]\<rparr>)
                else (k, group)) groupedPositions)"

record portfolio_entry =
  entry_pool :: string
  entry_poolId :: int
  entry_tokenA :: token_json
  entry_tokenB :: token_json
  liquidityProvided_tokenA :: string
  liquidityProvided_tokenB :: string
  positionsCount :: nat

definition portfolio_endpoint ::
  "(string \<Rightarrow> 'n::{zero,plus}) \<Rightarrow> ('n \<Rightarrow> string) \<Rightarrow> db option \<Rightarrow> string
     \<Rightarrow> portfolio_entry list reply" where
  "portfolio_endpoint Number render storage userAddress =
     (case storage of
        None \<Rightarrow> Fail 500 ''Failed to fetch portfolio''
      | Some d \<Rightarrow>
          let positions = liquidity_findMany d userAddress;
              groupedPositions = foldl (group_position Number) [] positions
          in Ok (map (\<lambda>(k, group).
                        \<lparr>entry_pool = group_pool group, entry_poolId = group_poolId group,
                         entry_tokenA = token_to_json (group_tokenA group),
                         entry_tokenB = token_to_json (group_tokenB group),
                         liquidityProvided_tokenA = render (totalAmountA group),
                         liquidityProvided_tokenB = render (totalAmountB group),
                         positionsCount = length (group_positions group)\<rparr>)
                   groupedPositions))"


section \<open>Pool registry indexer (Indexer/src/index.ts)\<close>

subsection \<open>Store operations\<close>

text \<open>
  Identifiers are \<^verbatim>\<open>SERIAL\<close>: a fresh row takes an id above every id of its table.
  \<^verbatim>\<open>Token.address\<close> and \<^verbatim>\<open>Pool.address\<close> carry unique indexes, so an insert of
  a second row with the same address is refused by the store.
\<close>

definition next_id :: "int list \<Rightarrow> int" where
  "next_id ids = foldl max 0 ids + 1"

datatype handler_error =
    MetaCallRejected
  | UniqueConstraintFailed string
  | NullPool

record token_meta =
  meta_symbol :: string
  meta_decimals :: int
  meta_name :: "string option"

text \<open>\<^verbatim>\<open>prisma.token.upsert({ where: { address }, update: {}, create: {...} })\<close>.\<close>

definition token_upsert :: "db \<Rightarrow> string \<Rightarrow> token_meta \<Rightarrow> db \<times> token_row" where
  "token_upsert d address meta =
     (case find (\<lambda>t. token_address t = address) (tokens d) of
        Some t \<Rightarrow> (d, t)
      | None \<Rightarrow>
          let t = \<lparr>token_id = next_id (map token_id (tokens d)), token_address = address,
                   token_symbol = meta_symbol meta, token_name = meta_name meta,
                   token_decimals = meta_decimals meta\<rparr>
          in (d\<lparr>tokens := tokens d @ [t]\<rparr>, t))"

text \<open>\<^verbatim>\<open>prisma.pool.create({ data: { address, tokenAId, tokenBId } })\<close>.\<close>

definition pool_create :: "db \<Rightarrow> string \<Rightarrow> int \<Rightarrow> int \<Rightarrow> handler_error + db" where
  "pool_create d address a b =
     (if find (\<lambda>p. pool_address p = address) (pools d) \<noteq> None then
        Inl (UniqueConstraintFailed ''Pool_address_key'')
      else
        Inr (d\<lparr>pools := pools d @
               [\<lparr>pool_id = next_id (map pool_id (pools d)), pool_address = address,
                 tokenAId = a, tokenBId = b\<rparr>]\<rparr>))"

definition pool_findUnique_address :: "db \<Rightarrow> string \<Rightarrow> pool_row option" where
  "pool_findUnique_address d address = find (\<lambda>p. pool_address p = address) (pools d)"

subsection \<open>The \<^verbatim>\<open>PairCreated\<close> handler\<close>

text \<open>
  The state of the indexer is the store and the pools it listens to. The handler
  has no \<^verbatim>\<open>try\<close>: the first rejected call ends it, with the store as the earlier
  calls left it. The result says whether it ended by an error. The metadata reads
  \<^verbatim>\<open>getTokenMeta\<close> are calls to the chain and a parameter; the two upserts of
  \<^verbatim>\<open>Promise.all\<close> are taken in order.
\<close>

record indexer =
  store :: db
  listening :: "string list"

definition PairCreated_handler ::
  "(string \<Rightarrow> token_meta option) \<Rightarrow> indexer \<Rightarrow> string \<Rightarrow> string \<Rightarrow> string
     \<Rightarrow> handler_error option \<times> indexer" where
  "PairCreated_handler getTokenMeta ix tknA tknB pair =
     (case getTokenMeta tknA of
        None \<Rightarrow> (Some MetaCallRejected, ix)
      | Some metaA \<Rightarrow>
          (case getTokenMeta tknB of
             None \<Rightarrow> (Some MetaCallRejected, ix)
           | Some metaB \<Rightarrow>
               let (d1, tA) = token_upsert (store ix) tknA metaA;
                   (d2, tB) = token_upsert d1 tknB metaB
               in (case pool_create d2 pair (token_id tA) (token_id tB) of
                     Inl e \<Rightarrow> (Some e, ix\<lparr>store := d2\<rparr>)
                   | Inr d3 \<Rightarrow> (None, \<lparr>store = d3, listening = listening ix @ [pair]\<rparr>))))"

subsection \<open>The pair listeners\<close>

text \<open>\<^verbatim>\<open>a || b\<close> on strings: the empty string is the only falsy string.\<close>

definition or_string :: "string \<Rightarrow> string \<Rightarrow> string" where
  "or_string a b = (if a \<noteq> [] then a else b)"

text \<open>
  Each listener looks the pool up by address and dereferences the result; on a
  missing pool that is a \<^verbatim>\<open>TypeError\<close>, caught and logged by the listener's
  \<^verbatim>\<open>try\<close>, and nothing is written. Event amounts are big integers. The Swap
  listener takes the event as \<^verbatim>\<open>(sender, amount0In, amount1In, amount0Out, amount1Out, to)\<close>;
  \<^verbatim>\<open>to\<close> is not used.
\<close>

definition Swap_handler ::
  "db \<Rightarrow> string \<Rightarrow> string \<Rightarrow> nat \<Rightarrow> nat \<Rightarrow> nat \<Rightarrow> nat \<Rightarrow> handler_error option \<times> db" where
  "Swap_handler d pairAddress sender amount0In amount1In amount0Out amount1Out =
     (case pool_findUnique_address d pairAddress of
        None \<Rightarrow> (Some NullPool, d)
      | Some p \<Rightarrow>
          (None, d\<lparr>swaps := swaps d @
             [\<lparr>swap_id = next_id (map swap_id (swaps d)), swap_poolId = pool_id p,
               trader = sender,
               amountIn = or_string (toString_nat amount0In) (toString_nat amount1In),
               amountOut = or_string (toString_nat amount0Out) (toString_nat amount1Out),
               tokenIn = (if amount0In > 0 then ''token0'' else ''token1''),
               tokenOut = (if amount0Out > 0 then ''token0'' else ''token1'')\<rparr>]\<rparr>))"

definition Mint_handler ::
  "db \<Rightarrow> string \<Rightarrow> string \<Rightarrow> nat \<Rightarrow> nat \<Rightarrow> handler_error option \<times> db" where
  "Mint_handler d pairAddress sender amount0 amount1 =
     (case pool_findUnique_address d pairAddress of
        None \<Rightarrow> (Some NullPool, d)
      | Some p \<Rightarrow>
          (None, d\<lparr>liquidity := liquidity d @
             [\<lparr>liquidity_id = next_id (map liquidity_id (liquidity d)),
               liquidity_poolId = pool_id p, provider = sender,
               amountA = toString_nat amount0, amountB = toString_nat amount1\<rparr>]\<rparr>))"

definition Burn_handler ::
  "db \<Rightarrow> string \<Rightarrow> string \<Rightarrow> nat \<Rightarrow> nat \<Rightarrow> handler_error option \<times> db" where
  "Burn_handler d pairAddress sender amount0 amount1 =
     (case pool_findUnique_address d pairAddress of
        None \<Rightarrow> (Some NullPool, d)
      | Some p \<Rightarrow>
          (None, d\<lparr>liquidity := liquidity d @
             [\<lparr>liquidity_id = next_id (map liquidity_id (liquidity d)),
               liquidity_poolId = pool_id p, provider = sender,
               amountA = ''-'' @ toString_nat amount0,
               amountB = ''-'' @ toString_nat amount1\<rparr>]\<rparr>))"

section \<open>Contracts (AMM.sol, AMMRouter.sol)\<close>

text \<open>
  \<^verbatim>\<open>uint256\<close> values are naturals below \<open>2 ^ 256\<close>; Solidity 0.8 checks every
  operation and reverts with a panic on overflow, underflow and division by zero.
  A revert is the left summand.
\<close>

type_synonym address = nat

datatype revert =
    InvalidPath
  | PairNotFound
  | Require string
  | Panic nat
  | NoCode

definition checked_add :: "nat \<Rightarrow> nat \<Rightarrow> revert + nat" where
  "checked_add a b = (if a + b < 2 ^ 256 then Inr (a + b) else Inl (Panic 17))"

definition checked_mul :: "nat \<Rightarrow> nat \<Rightarrow> revert + nat" where
  "checked_mul a b = (if a * b < 2 ^ 256 then Inr (a * b) else Inl (Panic 17))"

definition checked_sub :: "nat \<Rightarrow> nat \<Rightarrow> revert + nat" where
  "checked_sub a b = (if b \<le> a then Inr (a - b) else Inl (Panic 17))"

definition checked_div :: "nat \<Rightarrow> nat \<Rightarrow> revert + nat" where
  "checked_div a b = (if b = 0 then Inl (Panic 18) else Inr (a div b))"

definition bind :: "revert + 'a \<Rightarrow> ('a \<Rightarrow> revert + 'b) \<Rightarrow> revert + 'b" where
  "bind m f = (case m of Inl e \<Rightarrow> Inl e | Inr v \<Rightarrow> f v)"

record AMM =
  token0 :: address
  token1 :: address
  reserve0 :: nat
  reserve1 :: nat

text \<open>\<^verbatim>\<open>y - (x * y) / (x + dx)\<close>, operands evaluated left to right.\<close>

definition quantity_out :: "nat \<Rightarrow> nat \<Rightarrow> nat \<Rightarrow> revert + nat" where
  "quantity_out x y dx =
     bind (checked_mul x y) (\<lambda>k.
     bind (checked_add x dx) (\<lambda>x'.
     bind (checked_div k x') (\<lambda>q.
     checked_sub y q)))"

definition getQuantityOut :: "AMM \<Rightarrow> address \<Rightarrow> nat \<Rightarrow> revert + nat" where
  "getQuantityOut amm tknIn amountIn' =
     (if \<not> amountIn' > 0 then Inl (Require ''Invalid amount'')
      else if \<not> (tknIn = token0 amm \<or> tknIn = token1 amm) then Inl (Require ''Invalid token'')
      else if tknIn = token0 amm then quantity_out (reserve0 amm) (reserve1 amm) amountIn'
      else quantity_out (reserve1 amm) (reserve0 amm) amountIn')"

text \<open>The chain as the router sees it: the factory's \<^verbatim>\<open>getPair\<close> mapping (the zero
  address where no pair is registered) and the pair contract deployed at an address.\<close>

record chain =
  getPair :: "address \<Rightarrow> address \<Rightarrow> address"
  contract_at :: "address \<rightharpoonup> AMM"

definition pairFor :: "chain \<Rightarrow> address \<Rightarrow> address \<Rightarrow> revert + address" where
  "pairFor c a b = (let p = getPair c a b in if p = 0 then Inl PairNotFound else Inr p)"

definition getAmountOut :: "chain \<Rightarrow> nat \<Rightarrow> address \<Rightarrow> address \<Rightarrow> revert + nat" where
  "getAmountOut c amountIn' tknIn tknOut =
     bind (pairFor c tknIn tknOut) (\<lambda>pair.
       case contract_at c pair of
         None \<Rightarrow> Inl NoCode
       | Some amm \<Rightarrow> getQuantityOut amm tknIn amountIn')"

text \<open>The \<^verbatim>\<open>for\<close> loop of \<^verbatim>\<open>getAmountsOut\<close>, filling \<^verbatim>\<open>amounts[i + 1]\<close>.\<close>

function amounts_loop :: "chain \<Rightarrow> address list \<Rightarrow> nat \<Rightarrow> nat list \<Rightarrow> revert + nat list" where
  "amounts_loop c path i amounts =
     (if i < length path - 1 then
        bind (getAmountOut c (amounts ! i) (path ! i) (path ! (i + 1)))
          (\<lambda>out. amounts_loop c path (i + 1) (amounts[i + 1 := out]))
      else Inr amounts)"
  by pat_completeness auto
termination
  by (relation "measure (\<lambda>(c, path, i, amounts). length path - 1 - i)") auto

declare amounts_loop.simps [simp del]

definition getAmountsOut :: "chain \<Rightarrow> nat \<Rightarrow> address list \<Rightarrow> revert + nat list" where
  "getAmountsOut c amountIn' path =
     (if length path < 2 then Inl InvalidPath
      else amounts_loop c path 0 ((replicate (length path) 0)[0 := amountIn']))"


section \<open>Auxiliary notions\<close>

text \<open>The paths the enumerator may return.\<close>

definition simple_path :: "token \<Rightarrow> token \<Rightarrow> int \<Rightarrow> token list \<Rightarrow> bool" where
  "simple_path a b H p \<longleftrightarrow>
     1 < length p \<and> hd p = a \<and> last p = b \<and> int (length p) \<le> H + 1 \<and> distinct p"

text \<open>The candidate paths whose chained quote succeeds, in discovery order, each with
  its final output; the entry \<^verbatim>\<open>allPaths\<close> records for one; and the running best of the
  selection loop on numbers.\<close>

definition quoted_output :: "quote_fn \<Rightarrow> string \<Rightarrow> token list \<Rightarrow> nat option" where
  "quoted_output q amt p = (case q amt p of None \<Rightarrow> None | Some amounts \<Rightarrow> last_opt amounts)"

definition surviving :: "quote_fn \<Rightarrow> string \<Rightarrow> token list list \<Rightarrow> (token list \<times> nat) list" where
  "surviving q amt ps =
     List.map_filter (\<lambda>p. map_option (Pair p) (quoted_output q amt p)) ps"

definition route_entry :: "token list \<times> nat \<Rightarrow> route" where
  "route_entry po =
     \<lparr>route_path = fst po, expectedOutput = toString_nat (snd po),
      hops = int (length (fst po)) - 1,
      gasEstimate = toString_int (estimateMultiHopGas (fst po))\<rparr>"

definition best_step :: "token list option \<times> nat \<Rightarrow> token list \<times> nat \<Rightarrow> token list option \<times> nat" where
  "best_step acc po = (if snd po > snd acc then (Some (fst po), snd po) else acc)"

text \<open>Example data.\<close>

definition example_token :: "int \<Rightarrow> string \<Rightarrow> token_row" where
  "example_token i nm =
     \<lparr>token_id = i, token_address = nm, token_symbol = nm, token_name = None,
      token_decimals = 18\<rparr>"

definition example_pool :: "int \<Rightarrow> token_row \<Rightarrow> token_row \<Rightarrow> pool_incl" where
  "example_pool i ta tb =
     \<lparr>pool_id = i, pool_address = ''pool'' @ toString_int i, tokenAId = token_id ta,
      tokenBId = token_id tb, tokenA = ta, tokenB = tb\<rparr>"

definition example_pools :: "pool_incl list" where
  "example_pools =
     [example_pool 1 (example_token 1 ''A'') (example_token 2 ''B''),
      example_pool 2 (example_token 2 ''B'') (example_token 3 ''C''),
      example_pool 3 (example_token 1 ''A'') (example_token 3 ''C'')]"

definition example_quote :: quote_fn where
  "example_quote amt p =
     (if p = [''A'', ''C''] then Some [1, 5]
      else if p = [''A'', ''B'', ''C''] then Some [1, 3, 5]
      else None)"

text \<open>A router that quotes a final output of 0 on both paths from A to C, as pools
  without reserves do.\<close>

definition zero_quote :: quote_fn where
  "zero_quote amt p =
     (if p = [''A'', ''C''] then Some [1, 0]
      else if p = [''A'', ''B'', ''C''] then Some [1, 3, 0]
      else None)"

text \<open>What one pool contributes to the neighbour array of a token; tokens that share
  a pool; paths of the pool graph; and walks of an adjacency map.\<close>

definition pool_entries :: "token \<Rightarrow> pool_incl \<Rightarrow> token list" where
  "pool_entries t p =
     (if token_address (tokenA p) = t then [token_address (tokenB p)] else []) @
     (if token_address (tokenB p) = t then [token_address (tokenA p)] else [])"

definition tradable :: "pool_incl list \<Rightarrow> token \<Rightarrow> token \<Rightarrow> bool" where
  "tradable ps x y \<longleftrightarrow>
     (\<exists>p\<in>set ps. (token_address (tokenA p) = x \<and> token_address (tokenB p) = y) \<or>
                 (token_address (tokenA p) = y \<and> token_address (tokenB p) = x))"

definition connecting_path :: "pool_incl list \<Rightarrow> token \<Rightarrow> token \<Rightarrow> token list \<Rightarrow> bool" where
  "connecting_path ps a b p \<longleftrightarrow>
     1 < length p \<and> hd p = a \<and> last p = b \<and>
     (\<forall>i. Suc i < length p \<longrightarrow> tradable ps (p ! i) (p ! Suc i))"

definition walk_in :: "graph \<Rightarrow> token list \<Rightarrow> bool" where
  "walk_in g p \<longleftrightarrow> (\<forall>i. Suc i < length p \<longrightarrow> p ! Suc i \<in> set (neighbors_of g (Some (p ! i))))"

text \<open>More example data: a store with one pool, an empty indexer, a chain whose
  tokens answer every metadata call, integral values for \<^verbatim>\<open>Number\<close>, and a store
  with two pools over distinct tokens that carry the same symbols.\<close>

definition example_db :: db where
  "example_db =
     \<lparr>tokens = [example_token 1 ''A'', example_token 2 ''B''],
      pools = [\<lparr>pool_id = 1, pool_address = ''pool1'', tokenAId = 1, tokenBId = 2\<rparr>],
      liquidity = [], swaps = []\<rparr>"

definition example_meta :: "string \<Rightarrow> token_meta option" where
  "example_meta address = Some \<lparr>meta_symbol = address, meta_decimals = 18, meta_name = None\<rparr>"

definition empty_indexer :: indexer where
  "empty_indexer =
     \<lparr>store = \<lparr>tokens = [], pools = [], liquidity = [], swaps = []\<rparr>, listening = []\<rparr>"

definition example_Number :: "string \<Rightarrow> int" where
  "example_Number s = (case StringToBigInt s of None \<Rightarrow> 0 | Some n \<Rightarrow> int n)"

definition same_symbols_db :: db where
  "same_symbols_db =
     \<lparr>tokens =
        [\<lparr>token_id = 1, token_address = ''0xa1'', token_symbol = ''USDC'', token_name = None,
          token_decimals = 6\<rparr>,
         \<lparr>token_id = 2, token_address = ''0xb1'', token_symbol = ''WETH'', token_name = None,
          token_decimals = 18\<rparr>,
         \<lparr>token_id = 3, token_address = ''0xa2'', token_symbol = ''USDC'', token_name = None,
          token_decimals = 6\<rparr>,
         \<lparr>token_id = 4, token_address = ''0xb2'', token_symbol = ''WETH'', token_name = None,
          token_decimals = 18\<rparr>],
      pools =
        [\<lparr>pool_id = 1, pool_address = ''0xp1'', tokenAId = 1, tokenBId = 2\<rparr>,
         \<lparr>pool_id = 2, pool_address = ''0xp2'', tokenAId = 3, tokenBId = 4\<rparr>],
      liquidity =
        [\<lparr>liquidity_id = 1, liquidity_poolId = 1, provider = ''alice'', amountA = ''100'',
          amountB = ''1''\<rparr>,
         \<lparr>liquidity_id = 2, liquidity_poolId = 2, provider = ''alice'', amountA = ''50'',
          amountB = ''2''\<rparr>],
      swaps = []\<rparr>"

text \<open>A store whose pools form the line A-B-C-D-E, and a router that quotes 1 on every
  hop.\<close>

definition line_db :: db where
  "line_db =
     \<lparr>tokens = [example_token 1 ''A'', example_token 2 ''B'', example_token 3 ''C'',
                example_token 4 ''D'', example_token 5 ''E''],
      pools = [\<lparr>pool_id = 1, pool_address = ''pool1'', tokenAId = 1, tokenBId = 2\<rparr>,
               \<lparr>pool_id = 2, pool_address = ''pool2'', tokenAId = 2, tokenBId = 3\<rparr>,
               \<lparr>pool_id = 3, pool_address = ''pool3'', tokenAId = 3, tokenBId = 4\<rparr>,
               \<lparr>pool_id = 4, pool_address = ''pool4'', tokenAId = 4, tokenBId = 5\<rparr>],
      liquidity = [], swaps = []\<rparr>"

definition unit_quote :: quote_fn where
  "unit_quote amt p = Some (replicate (length p) 1)"

text \<open>A chain with two pairs: tokens 2 and 3 trade at address 10, tokens 3 and 4 at
  address 11.\<close>

definition example_chain :: chain where
  "example_chain =
     \<lparr>getPair = (\<lambda>a b. if (a, b) = (2, 3) \<or> (a, b) = (3, 2) then 10
                         else if (a, b) = (3, 4) \<or> (a, b) = (4, 3) then 11 else 0),
      contract_at = [10 \<mapsto> \<lparr>token0 = 2, token1 = 3, reserve0 = 1000, reserve1 = 2000\<rparr>,
                     11 \<mapsto> \<lparr>token0 = 3, token1 = 4, reserve0 = 500, reserve1 = 500\<rparr>]\<rparr>"

text \<open>The state of the enumeration that keeps its results free of duplicates: no
  partial path in the queue extends another one, and none is a prefix of a result.
  Pool sets without parallel pools or self-pairs. Two parallel pools.\<close>

definition bfs_inv :: "token list list \<Rightarrow> token list list \<Rightarrow> bool" where
  "bfs_inv queue found \<longleftrightarrow>
     distinct queue \<and> distinct found \<and>
     (\<forall>q\<in>set queue. \<forall>q'\<in>set queue. \<not> strict_prefix q q') \<and>
     (\<forall>f\<in>set found. \<forall>q\<in>set queue. \<not> prefix q f)"

definition same_pair :: "pool_incl \<Rightarrow> pool_incl \<Rightarrow> bool" where
  "same_pair p p' \<longleftrightarrow>
     (token_address (tokenA p) = token_address (tokenA p') \<and>
      token_address (tokenB p) = token_address (tokenB p')) \<or>
     (token_address (tokenA p) = token_address (tokenB p') \<and>
      token_address (tokenB p) = token_address (tokenA p'))"

fun no_parallel :: "pool_incl list \<Rightarrow> bool" where
  "no_parallel [] = True"
| "no_parallel (p # ps) =
     (token_address (tokenA p) \<noteq> token_address (tokenB p) \<and>
      (\<forall>p'\<in>set ps. \<not> same_pair p p') \<and> no_parallel ps)"

definition parallel_pools :: "pool_incl list" where
  "parallel_pools =
     [example_pool 1 (example_token 1 ''A'') (example_token 2 ''B''),
      example_pool 2 (example_token 1 ''A'') (example_token 2 ''B'')]"

section \<open>Verified properties\<close>

subsection \<open>Path enumeration\<close>

lemma BFS_loop_too_long:
  "int (length currentPath) > maxDepth + 1 \<Longrightarrow>
   BFS_loop graph end maxDepth (currentPath # queue) visited paths =
   BFS_loop graph end maxDepth queue visited paths"
  by simp

lemma BFS_loop_found:
  "\<not> int (length currentPath) > maxDepth + 1 \<Longrightarrow>
   last_opt currentPath = Some end \<Longrightarrow> length currentPath > 1 \<Longrightarrow>
   BFS_loop graph end maxDepth (currentPath # queue) visited paths =
   BFS_loop graph end maxDepth queue visited (paths @ [currentPath])"
  by simp

lemma BFS_loop_seen:
  "\<not> int (length currentPath) > maxDepth + 1 \<Longrightarrow>
   \<not> (last_opt currentPath = Some end \<and> length currentPath > 1) \<Longrightarrow>
   join_comma currentPath \<in> set visited \<Longrightarrow>
   BFS_loop graph end maxDepth (currentPath # queue) visited paths =
   BFS_loop graph end maxDepth queue visited paths"
  by (auto simp: Let_def)

lemma BFS_loop_expand:
  "\<not> int (length currentPath) > maxDepth + 1 \<Longrightarrow>
   \<not> (last_opt currentPath = Some end \<and> length currentPath > 1) \<Longrightarrow>
   join_comma currentPath \<notin> set visited \<Longrightarrow>
   BFS_loop graph end maxDepth (currentPath # queue) visited paths =
   BFS_loop graph end maxDepth
     (queue @ map (\<lambda>neighbor. currentPath @ [neighbor])
                (filter (\<lambda>neighbor. neighbor \<notin> set currentPath)
                   (neighbors_of graph (last_opt currentPath))))
     (join_comma currentPath # visited) paths"
  by (auto simp: Let_def)


lemma BFS_loop_induct [consumes 0, case_names empty too_long found seen expand]:
  assumes empty: "\<And>visited paths. P [] visited paths"
    and too_long: "\<And>currentPath queue visited paths.
        int (length currentPath) > maxDepth + 1 \<Longrightarrow> P queue visited paths \<Longrightarrow>
        P (currentPath # queue) visited paths"
    and found: "\<And>currentPath queue visited paths.
        \<not> int (length currentPath) > maxDepth + 1 \<Longrightarrow>
        last_opt currentPath = Some end \<Longrightarrow> length currentPath > 1 \<Longrightarrow>
        P queue visited (paths @ [currentPath]) \<Longrightarrow>
        P (currentPath # queue) visited paths"
    and seen: "\<And>currentPath queue visited paths.
        \<not> int (length currentPath) > maxDepth + 1 \<Longrightarrow>
        \<not> (last_opt currentPath = Some end \<and> length currentPath > 1) \<Longrightarrow>
        join_comma currentPath \<in> set visited \<Longrightarrow>
        P queue visited paths \<Longrightarrow>
        P (currentPath # queue) visited paths"
    and expand: "\<And>currentPath queue visited paths.
        \<not> int (length currentPath) > maxDepth + 1 \<Longrightarrow>
        \<not> (last_opt currentPath = Some end \<and> length currentPath > 1) \<Longrightarrow>
        join_comma currentPath \<notin> set visited \<Longrightarrow>
        P (queue @ map (\<lambda>neighbor. currentPath @ [neighbor])
                     (filter (\<lambda>neighbor. neighbor \<notin> set currentPath)
                        (neighbors_of graph (last_opt currentPath))))
          (join_comma currentPath # visited) paths \<Longrightarrow>
        P (currentPath # queue) visited paths"
  shows "P queue visited paths"
  using assms
proof (induction graph "end" maxDepth queue visited paths rule: BFS_loop.induct)
  case (1 graph "end" maxDepth visited paths)
  show ?case by (rule "1.prems"(1))
next
  case (2 graph "end" maxDepth currentPath queue visited paths)
  note rules = "2.prems"
  show ?case
  proof (cases "int (length currentPath) > maxDepth + 1")
    case True
    from True "2.IH"(1)[OF refl True rules] show ?thesis by (rule rules(2))
  next
    case short: False
    show ?thesis
    proof (cases "last_opt currentPath = Some end \<and> length currentPath > 1")
      case True
      from short True[THEN conjunct1] True[THEN conjunct2]
        "2.IH"(2)[OF refl short True rules]
      show ?thesis by (rule rules(3))
    next
      case notend: False
      show ?thesis
      proof (cases "join_comma currentPath \<in> set visited")
        case True
        from short notend True "2.IH"(3)[OF refl short notend refl True rules]
        show ?thesis by (rule rules(4))
      next
        case False
        from short notend False "2.IH"(4)[OF refl short notend refl False rules]
        show ?thesis by (rule rules(5))
      qed
    qed
  qed
qed

lemma BFS_loop_simple:
  assumes "\<forall>q\<in>set queue. q \<noteq> [] \<and> hd q = a \<and> distinct q"
    and "\<forall>p\<in>set paths. simple_path a b H p"
  shows "\<forall>p\<in>set (BFS_loop graph b H queue visited paths). simple_path a b H p"
  using assms
proof (induction queue visited paths rule: BFS_loop_induct[where maxDepth = H and ?end = b and graph = graph])
  case (empty visited paths)
  then show ?case by simp
next
  case (too_long currentPath queue visited paths)
  then show ?case by (simp add: BFS_loop_too_long del: BFS_loop.simps)
next
  case (found currentPath queue visited paths)
  from found.prems(1) found.hyps have "simple_path a b H currentPath"
    by (simp add: simple_path_def last_opt_def split: if_splits)
  with found.prems have "\<forall>p\<in>set (BFS_loop graph b H queue visited (paths @ [currentPath])).
      simple_path a b H p"
    by (intro found.IH) simp_all
  then show ?case unfolding BFS_loop_found[OF found.hyps] .
next
  case (seen currentPath queue visited paths)
  then have "\<forall>p\<in>set (BFS_loop graph b H queue visited paths). simple_path a b H p"
    by simp
  then show ?case unfolding BFS_loop_seen[OF seen.hyps] .
next
  case (expand currentPath queue visited paths)
  from expand.prems(1)
  have "\<forall>q\<in>set (queue @ map (\<lambda>neighbor. currentPath @ [neighbor])
                     (filter (\<lambda>neighbor. neighbor \<notin> set currentPath)
                        (neighbors_of graph (last_opt currentPath)))).
           q \<noteq> [] \<and> hd q = a \<and> distinct q"
    by auto
  from expand.IH[OF this expand.prems(2)]
  show ?case unfolding BFS_loop_expand[OF expand.hyps] .
qed

lemma simple_path_ends: "simple_path a b H p \<Longrightarrow> a \<noteq> b"
proof
  assume sp: "simple_path a b H p" and "a = b"
  then have "1 < length p" "hd p = last p" "distinct p"
    by (simp_all add: simple_path_def)
  then show False
    by (cases p) (auto simp: last_in_set split: if_splits)
qed

text \<open>
  Claim C1. For every token graph, source \<open>a\<close>, destination \<open>b\<close> and hop bound \<open>H\<close>,
  every path returned by \<^verbatim>\<open>findAllPathsBFS\<close> starts at \<open>a\<close>, ends at \<open>b\<close>, has at
  most \<open>H + 1\<close> tokens and repeats no token; and when \<open>a = b\<close> the result is empty.
\<close>

theorem findAllPathsBFS_sound:
  "(\<forall>p\<in>set (findAllPathsBFS graph a b H).
        p \<noteq> [] \<and> hd p = a \<and> last p = b \<and> int (length p) \<le> H + 1 \<and> distinct p)
     \<and> (a = b \<longrightarrow> findAllPathsBFS graph a b H = [])"
proof -
  have all: "\<forall>p\<in>set (findAllPathsBFS graph a b H). simple_path a b H p"
    unfolding findAllPathsBFS_def by (rule BFS_loop_simple) simp_all
  have "findAllPathsBFS graph a b H = []" if "a = b"
  proof (cases "findAllPathsBFS graph a b H")
    case (Cons p ps)
    with all have "simple_path a b H p" by simp
    with that show ?thesis by (simp add: simple_path_ends)
  qed simp
  with all show ?thesis by (auto simp: simple_path_def)
qed

theorem findAllPathsBFS_sound_witness:
  "[''A'', ''B'', ''C''] \<in> set (findAllPathsBFS
       [''A'' \<mapsto> [''B''], ''B'' \<mapsto> [''A'', ''C''], ''C'' \<mapsto> [''B'']] ''A'' ''C'' 3)
   \<and> hd [''A'', ''B'', ''C''] = ''A'' \<and> last [''A'', ''B'', ''C''] = ''C''
   \<and> int (length [''A'', ''B'', ''C'']) \<le> 3 + 1 \<and> distinct [''A'', ''B'', ''C'']
   \<and> findAllPathsBFS
       [''A'' \<mapsto> [''B''], ''B'' \<mapsto> [''A'', ''C''], ''C'' \<mapsto> [''B'']] ''A'' ''A'' 3 = []"
proof -
  let ?g = "[''A'' \<mapsto> [''B''], ''B'' \<mapsto> [''A'', ''C''], ''C'' \<mapsto> [''B'']]"
  have mem: "[''A'', ''B'', ''C''] \<in> set (findAllPathsBFS ?g ''A'' ''C'' 3)"
    by code_simp
  from findAllPathsBFS_sound[of ?g "''A''" "''C''" 3] mem
  have "hd [''A'', ''B'', ''C''] = ''A'' \<and> last [''A'', ''B'', ''C''] = ''C''
     \<and> int (length [''A'', ''B'', ''C'']) \<le> 3 + 1 \<and> distinct [''A'', ''B'', ''C'']"
    by blast
  moreover from findAllPathsBFS_sound[of ?g "''A''" "''A''" 3]
  have "findAllPathsBFS ?g ''A'' ''A'' 3 = []" by simp
  ultimately show ?thesis using mem by simp
qed


subsection \<open>Decimal strings\<close>

lemma digit_val_digit_char: "d < 10 \<Longrightarrow> digit_val (digit_char d) = Some d"
proof -
  assume "d < 10"
  then have "d \<in> {0, 1, 2, 3, 4, 5, 6, 7, 8, 9}" by auto
  then show ?thesis
    by (auto simp: digit_val_def digit_char_def)
qed

lemma parse_digits_append:
  "parse_digits acc (s @ t) =
     (case parse_digits acc s of None \<Rightarrow> None | Some v \<Rightarrow> parse_digits v t)"
  by (induction s arbitrary: acc) (auto split: option.splits)

lemma parse_digits_toString: "parse_digits 0 (toString_nat n) = Some n"
proof (induction n rule: toString_nat.induct)
  case (1 n)
  show ?case
  proof (cases "n < 10")
    case True
    then show ?thesis
      by (subst toString_nat.simps) (simp add: digit_val_digit_char)
  next
    case False
    with 1 have "parse_digits 0 (toString_nat (n div 10)) = Some (n div 10)" by simp
    with False show ?thesis
      by (subst toString_nat.simps) (simp add: parse_digits_append digit_val_digit_char)
  qed
qed

lemma bigint_gt_toString: "bigint_gt_string output (toString_nat m) \<longleftrightarrow> output > m"
  by (simp add: bigint_gt_string_def StringToBigInt_def parse_digits_toString)

lemma toString_nat_nonempty: "toString_nat n \<noteq> []"
  by (subst toString_nat.simps) simp

lemma toString_nat_0: "toString_nat 0 = ''0''"
  by (subst toString_nat.simps) (simp add: digit_char_def)


subsection \<open>Route selection\<close>

lemma surviving_Nil: "surviving q amt [] = []"
  by (simp add: surviving_def map_filter_simps)

lemma surviving_Cons:
  "surviving q amt (p # ps) =
     (case quoted_output q amt p of
        None \<Rightarrow> surviving q amt ps
      | Some out \<Rightarrow> (p, out) # surviving q amt ps)"
  by (simp add: surviving_def map_filter_simps split: option.splits)

lemma evaluate_path_skip:
  "quoted_output q amt p = None \<Longrightarrow> evaluate_path q amt st p = st"
  by (auto simp: evaluate_path_def quoted_output_def split: option.splits)

lemma evaluate_path_quoted:
  assumes "quoted_output q amt p = Some out" and "bestOutput st = toString_nat m"
  shows "bestPath (evaluate_path q amt st p) = fst (best_step (bestPath st, m) (p, out))"
    and "bestOutput (evaluate_path q amt st p) =
           toString_nat (snd (best_step (bestPath st, m) (p, out)))"
    and "allPaths (result (evaluate_path q amt st p)) =
           allPaths (result st) @ [route_entry (p, out)]"
  using assms
  by (auto simp: evaluate_path_def quoted_output_def best_step_def route_entry_def Let_def
      bigint_gt_toString split: option.splits)

lemma evaluate_loop:
  "bestOutput st = toString_nat m \<Longrightarrow>
   bestPath (foldl (evaluate_path q amt) st ps) =
     fst (foldl best_step (bestPath st, m) (surviving q amt ps)) \<and>
   bestOutput (foldl (evaluate_path q amt) st ps) =
     toString_nat (snd (foldl best_step (bestPath st, m) (surviving q amt ps))) \<and>
   allPaths (result (foldl (evaluate_path q amt) st ps)) =
     allPaths (result st) @ map route_entry (surviving q amt ps)"
proof (induction ps arbitrary: st m)
  case Nil
  then show ?case by (simp add: surviving_Nil)
next
  case (Cons p ps)
  show ?case
  proof (cases "quoted_output q amt p")
    case None
    with Cons show ?thesis
      by (simp add: surviving_Cons evaluate_path_skip)
  next
    case (Some out)
    let ?st = "evaluate_path q amt st p"
    let ?acc = "best_step (bestPath st, m) (p, out)"
    note step = evaluate_path_quoted[OF Some Cons.prems]
    have "bestOutput ?st = toString_nat (snd ?acc)" by (rule step(2))
    from Cons.IH[OF this] step(1,3) Some show ?thesis
      by (simp add: surviving_Cons)
  qed
qed

lemma evaluate_path_optimal:
  "optimal (result (evaluate_path q amt st p)) = optimal (result st)"
  by (auto simp: evaluate_path_def Let_def split: option.splits)

lemma evaluate_loop_optimal:
  "optimal (result (foldl (evaluate_path q amt) st ps)) = optimal (result st)"
  by (induction ps arbitrary: st) (simp_all add: evaluate_path_optimal)

lemma best_fold_snoc:
  "foldl best_step acc (S @ [x]) =
     (if snd x > snd (foldl best_step acc S) then (Some (fst x), snd x)
      else foldl best_step acc S)"
proof -
  have "foldl best_step acc (S @ [x]) = best_step (foldl best_step acc S) x" by simp
  also have "\<dots> = (if snd x > snd (foldl best_step acc S) then (Some (fst x), snd x)
      else foldl best_step acc S)"
    by (rule best_step_def)
  finally show ?thesis .
qed

lemma best_fold_upper:
  "\<forall>x\<in>set S. snd x \<le> snd (foldl best_step (None, 0) S)"
proof (induction S rule: rev_induct)
  case Nil
  show ?case by simp
next
  case (snoc x S)
  then show ?case
    unfolding best_fold_snoc by (auto intro: order_trans less_imp_le)
qed

lemma best_fold_first:
  "fst (foldl best_step (None, 0) S) = Some p \<Longrightarrow>
   \<exists>i<length S. S ! i = (p, snd (foldl best_step (None, 0) S)) \<and>
      (\<forall>j<i. snd (S ! j) < snd (foldl best_step (None, 0) S))"
proof (induction S rule: rev_induct)
  case Nil
  then show ?case by simp
next
  case (snoc x S)
  let ?acc = "foldl best_step (None, 0) S"
  show ?case
  proof (cases "snd x > snd ?acc")
    case True
    then have eq: "foldl best_step (None, 0) (S @ [x]) = (Some (fst x), snd x)"
      by (simp only: best_fold_snoc if_True)
    with snoc.prems have p: "fst x = p" by simp
    have "\<forall>j<length S. snd (S ! j) < snd x"
      using best_fold_upper[of S] True by (auto intro: le_less_trans)
    then have "\<forall>j<length S. snd ((S @ [x]) ! j) < snd x"
      by (simp add: nth_append)
    moreover have "(S @ [x]) ! length S = (p, snd x)"
      using p by auto
    ultimately show ?thesis
      unfolding eq by (intro exI[of _ "length S"]) simp
  next
    case False
    then have eq: "foldl best_step (None, 0) (S @ [x]) = ?acc"
      by (simp only: best_fold_snoc if_False)
    with snoc.prems have "fst ?acc = Some p" by simp
    from snoc.IH[OF this] obtain i where i: "i < length S" "S ! i = (p, snd ?acc)"
      "\<forall>j<i. snd (S ! j) < snd ?acc" by blast
    then have "(S @ [x]) ! i = (p, snd ?acc)" "\<forall>j<i. snd ((S @ [x]) ! j) < snd ?acc"
      by (simp_all add: nth_append)
    with i(1) show ?thesis
      unfolding eq by (intro exI[of _ i]) simp
  qed
qed

text \<open>
  When \<^verbatim>\<open>findOptimalPath\<close> reports an optimal route, that route is one of the
  surviving paths (those whose chained quote succeeded, which are exactly the entries
  of \<^verbatim>\<open>allPaths\<close>), its expected output is at least the output of every surviving
  path, and every surviving path discovered before it has a strictly smaller output.
\<close>

lemma optimal_route_is_best:
  fixes q :: quote_fn and amt :: string and ps :: "pool_incl list" and a :: token and b :: token
  defines "S \<equiv> surviving q amt (findAllPathsBFS (buildTokenGraph ps) a b 4)"
  assumes "optimal (findOptimalPath q ps a b amt) = Some r"
  shows "map (\<lambda>e. (route_path e, expectedOutput e)) (allPaths (findOptimalPath q ps a b amt)) =
           map (\<lambda>po. (fst po, toString_nat (snd po))) S \<and>
         (\<exists>i<length S. route_path r = fst (S ! i) \<and> expectedOutput r = toString_nat (snd (S ! i)) \<and>
            (\<forall>j<length S. snd (S ! j) \<le> snd (S ! i)) \<and>
            (\<forall>j<i. snd (S ! j) < snd (S ! i)))"
proof -
  let ?found = "findAllPathsBFS (buildTokenGraph ps) a b 4"
  let ?init = "\<lparr>result = \<lparr>direct = None, optimal = None, allPaths = []\<rparr>,
               bestPath = None, bestOutput = ''0''\<rparr>"
  let ?st = "foldl (evaluate_path q amt) ?init ?found"
  let ?acc = "foldl best_step (None, 0) S"
  have "bestOutput ?init = toString_nat 0" by (simp add: toString_nat_0)
  note loop = evaluate_loop[OF this, of q amt ?found, simplified, folded S_def]
  from loop have bp: "bestPath ?st = fst ?acc" by (rule conjunct1)
  from loop have bo: "bestOutput ?st = toString_nat (snd ?acc)" by blast
  from loop have ap: "allPaths (result ?st) = map route_entry S" by blast
  from assms(2) have nonempty: "length ?found \<noteq> 0"
    by (auto simp: findOptimalPath_def Let_def)
  have "optimal (result ?st) = None" by (simp add: evaluate_loop_optimal)
  with nonempty assms(2) obtain best where best: "bestPath ?st = Some best"
    and r: "r = \<lparr>route_path = best, expectedOutput = bestOutput ?st,
                 hops = int (length best) - 1,
                 gasEstimate = toString_int (estimateMultiHopGas best)\<rparr>"
    by (auto simp: findOptimalPath_def Let_def split: option.splits)
  from nonempty have "allPaths (findOptimalPath q ps a b amt) = allPaths (result ?st)"
    by (auto simp: findOptimalPath_def Let_def split: option.splits)
  with ap have part1: "map (\<lambda>e. (route_path e, expectedOutput e))
      (allPaths (findOptimalPath q ps a b amt)) = map (\<lambda>po. (fst po, toString_nat (snd po))) S"
    by (simp add: route_entry_def comp_def)
  from best bp have "fst ?acc = Some best" by simp
  from best_fold_first[OF this] obtain i where i: "i < length S" "S ! i = (best, snd ?acc)"
    "\<forall>j<i. snd (S ! j) < snd ?acc" by blast
  have "\<forall>j<length S. snd (S ! j) \<le> snd ?acc"
    using best_fold_upper[of S] by simp
  with i r bo have "route_path r = fst (S ! i) \<and> expectedOutput r = toString_nat (snd (S ! i)) \<and>
            (\<forall>j<length S. snd (S ! j) \<le> snd (S ! i)) \<and>
            (\<forall>j<i. snd (S ! j) < snd (S ! i))"
    by simp
  with i(1) part1 show ?thesis by blast
qed


text \<open>An optimal route is reported exactly when some surviving path quotes a positive
  output: the loop starts from the best output \<^verbatim>\<open>"0"\<close> and replaces it only by a
  strictly greater one.\<close>

lemma best_fold_none_zero:
  "fst (foldl best_step (None, 0) S) = None \<Longrightarrow> snd (foldl best_step (None, 0) S) = 0"
proof (induction S rule: rev_induct)
  case Nil
  show ?case by simp
next
  case (snoc x S)
  show ?case
  proof (cases "snd x > snd (foldl best_step (None, 0) S)")
    case True
    with snoc.prems show ?thesis unfolding best_fold_snoc by simp
  next
    case False
    with snoc show ?thesis unfolding best_fold_snoc by simp
  qed
qed

lemma best_fold_none:
  "fst (foldl best_step (None, 0) S) = None \<longleftrightarrow> (\<forall>x\<in>set S. snd x = 0)"
proof
  assume none: "fst (foldl best_step (None, 0) S) = None"
  from best_fold_none_zero[OF this] best_fold_upper[of S]
  show "\<forall>x\<in>set S. snd x = 0" by simp
next
  assume "\<forall>x\<in>set S. snd x = 0"
  then show "fst (foldl best_step (None, 0) S) = None"
  proof (induction S rule: rev_induct)
    case Nil
    show ?case by simp
  next
    case (snoc x S)
    then have "fst (foldl best_step (None, 0) S) = None" "snd x = 0" by simp_all
    then show ?case unfolding best_fold_snoc by simp
  qed
qed

lemma optimal_reported_iff:
  "optimal (findOptimalPath q ps a b amt) \<noteq> None \<longleftrightarrow>
     (\<exists>x\<in>set (surviving q amt (findAllPathsBFS (buildTokenGraph ps) a b 4)). 0 < snd x)"
proof -
  let ?found = "findAllPathsBFS (buildTokenGraph ps) a b 4"
  let ?S = "surviving q amt ?found"
  let ?init = "\<lparr>result = \<lparr>direct = None, optimal = None, allPaths = []\<rparr>,
               bestPath = None, bestOutput = ''0''\<rparr>"
  let ?st = "foldl (evaluate_path q amt) ?init ?found"
  have "bestOutput ?init = toString_nat 0" by (simp add: toString_nat_0)
  from evaluate_loop[OF this, of q amt ?found]
  have bp: "bestPath ?st = fst (foldl best_step (None, 0) ?S)" by simp
  have opt: "optimal (result ?st) = None" by (simp add: evaluate_loop_optimal)
  show ?thesis
  proof (cases "?found = []")
    case True
    then show ?thesis by (simp add: findOptimalPath_def surviving_Nil)
  next
    case False
    then have "optimal (findOptimalPath q ps a b amt) \<noteq> None \<longleftrightarrow> bestPath ?st \<noteq> None"
      using opt by (auto simp: findOptimalPath_def Let_def split: option.splits)
    also have "\<dots> \<longleftrightarrow> \<not> (\<forall>x\<in>set ?S. snd x = 0)"
      unfolding bp best_fold_none ..
    finally show ?thesis by auto
  qed
qed

text \<open>
  Claim C2, at the input it fails on. Both paths from A to C survive, each with the
  final output 0. The request records both in \<^verbatim>\<open>allPaths\<close> and reports the direct
  route, but reports no optimal route: the first-discovered of the two tied paths is
  not selected.
\<close>

theorem optimal_missing_on_zero_quotes:
  "findOptimalPath zero_quote example_pools ''A'' ''C'' ''1'' =
     \<lparr>direct = Some \<lparr>route_path = [''A'', ''C''], expectedOutput = ''0'', hops = 1,
                  gasEstimate = ''180000''\<rparr>,
      optimal = None,
      allPaths = [\<lparr>route_path = [''A'', ''C''], expectedOutput = ''0'', hops = 1,
                  gasEstimate = ''180000''\<rparr>,
                  \<lparr>route_path = [''A'', ''B'', ''C''], expectedOutput = ''0'', hops = 2,
                  gasEstimate = ''300000''\<rparr>]\<rparr>"
proof -
  have bfs: "findAllPathsBFS (buildTokenGraph example_pools) ''A'' ''C'' 4 =
      [[''A'', ''C''], [''A'', ''B'', ''C'']]"
    by code_simp
  show ?thesis
    by (simp add: findOptimalPath_def bfs Let_def evaluate_path_def zero_quote_def
        last_opt_def bigint_gt_string_def StringToBigInt_def digit_val_def toString_nat.simps
        toString_int_def estimateMultiHopGas_def digit_char_def)
qed

subsection \<open>The token graph and the paths of the pool set\<close>

lemma neighbors_add_pool:
  "neighbors_of (add_pool g p) (Some t) = neighbors_of g (Some t) @ pool_entries t p"
  by (auto simp: add_pool_def ensure_key_def push_neighbor_def neighbors_of_def pool_entries_def
      Let_def split: option.splits)

lemma neighbors_foldl_add_pool:
  "neighbors_of (foldl add_pool g ps) (Some t) =
     neighbors_of g (Some t) @ concat (map (pool_entries t) ps)"
  by (induction ps arbitrary: g) (simp_all add: neighbors_add_pool)

lemma neighbors_buildTokenGraph:
  "neighbors_of (buildTokenGraph ps) (Some t) = concat (map (pool_entries t) ps)"
proof -
  have "neighbors_of Map.empty (Some t) = []" by (simp add: neighbors_of_def)
  then show ?thesis
    unfolding buildTokenGraph_def neighbors_foldl_add_pool by simp
qed

lemma set_neighbors_buildTokenGraph:
  "set (neighbors_of (buildTokenGraph ps) (Some t)) = {u. tradable ps t u}"
  by (auto simp: neighbors_buildTokenGraph pool_entries_def tradable_def split: if_splits)

lemma walk_in_snoc:
  assumes "walk_in g p" "p \<noteq> []" "n \<in> set (neighbors_of g (Some (last p)))"
  shows "walk_in g (p @ [n])"
  unfolding walk_in_def
proof (intro allI impI)
  fix i assume "Suc i < length (p @ [n])"
  then consider "Suc i < length p" | "Suc i = length p" by fastforce
  then show "(p @ [n]) ! Suc i \<in> set (neighbors_of g (Some ((p @ [n]) ! i)))"
  proof cases
    case 1
    with assms(1) show ?thesis by (simp add: walk_in_def nth_append)
  next
    case 2
    then have "i = length p - 1" by simp
    then have "p ! i = last p" using assms(2) by (simp add: last_conv_nth)
    with 2 assms(3) show ?thesis by (simp add: nth_append)
  qed
qed

lemma BFS_loop_walks:
  assumes "\<forall>q\<in>set queue. q \<noteq> [] \<and> walk_in graph q"
    and "\<forall>p\<in>set paths. walk_in graph p"
  shows "\<forall>p\<in>set (BFS_loop graph b H queue visited paths). walk_in graph p"
  using assms
proof (induction queue visited paths rule: BFS_loop_induct[where maxDepth = H and ?end = b and graph = graph])
  case (empty visited paths)
  then show ?case by simp
next
  case (too_long currentPath queue visited paths)
  then show ?case by (simp add: BFS_loop_too_long del: BFS_loop.simps)
next
  case (found currentPath queue visited paths)
  then have "\<forall>p\<in>set (BFS_loop graph b H queue visited (paths @ [currentPath])). walk_in graph p"
    by (intro found.IH) simp_all
  then show ?case unfolding BFS_loop_found[OF found.hyps] .
next
  case (seen currentPath queue visited paths)
  then have "\<forall>p\<in>set (BFS_loop graph b H queue visited paths). walk_in graph p"
    by simp
  then show ?case unfolding BFS_loop_seen[OF seen.hyps] .
next
  case (expand currentPath queue visited paths)
  from expand.prems(1) have cp: "currentPath \<noteq> []" "walk_in graph currentPath" by simp_all
  then have "last_opt currentPath = Some (last currentPath)" by (simp add: last_opt_def)
  with cp expand.prems(1)
  have "\<forall>q\<in>set (queue @ map (\<lambda>neighbor. currentPath @ [neighbor])
                     (filter (\<lambda>neighbor. neighbor \<notin> set currentPath)
                        (neighbors_of graph (last_opt currentPath)))).
           q \<noteq> [] \<and> walk_in graph q"
    by (auto intro: walk_in_snoc)
  from expand.IH[OF this expand.prems(2)]
  show ?case unfolding BFS_loop_expand[OF expand.hyps] .
qed

lemma findAllPathsBFS_walks:
  "\<forall>p\<in>set (findAllPathsBFS graph a b H). walk_in graph p"
  unfolding findAllPathsBFS_def by (rule BFS_loop_walks) (simp_all add: walk_in_def)

lemma findAllPathsBFS_simple:
  "\<forall>p\<in>set (findAllPathsBFS graph a b H). simple_path a b H p"
  unfolding findAllPathsBFS_def by (rule BFS_loop_simple) simp_all

lemma findAllPathsBFS_connecting:
  "p \<in> set (findAllPathsBFS (buildTokenGraph ps) a b H) \<Longrightarrow> connecting_path ps a b p"
  using findAllPathsBFS_walks[of "buildTokenGraph ps" a b H]
    findAllPathsBFS_simple[of "buildTokenGraph ps" a b H]
  by (auto simp: connecting_path_def simple_path_def walk_in_def set_neighbors_buildTokenGraph)

lemma no_connecting_path_empty:
  "\<not> (\<exists>p. connecting_path ps a b p) \<Longrightarrow> findAllPathsBFS (buildTokenGraph ps) a b H = []"
  using findAllPathsBFS_connecting[of _ ps a b H]
  by (cases "findAllPathsBFS (buildTokenGraph ps) a b H") auto


lemma toString_nat_digit: "n < 10 \<Longrightarrow> toString_nat n = [digit_char n]"
  by (subst toString_nat.simps) simp

subsection \<open>Indexer\<close>

lemma Swap_handler_amountIn:
  "pool_findUnique_address d pairAddress = Some p \<Longrightarrow>
   amountIn (last (swaps (snd (Swap_handler d pairAddress sender a0 a1 o0 o1)))) =
     toString_nat a0 \<and>
   amountOut (last (swaps (snd (Swap_handler d pairAddress sender a0 a1 o0 o1)))) =
     toString_nat o0"
  by (simp add: Swap_handler_def or_string_def toString_nat_nonempty)

text \<open>
  Claim C3, at the input it fails on. A Swap event on a recorded pool with
  \<^verbatim>\<open>amount0In = 0\<close>, \<^verbatim>\<open>amount1In = 5\<close>, \<^verbatim>\<open>amount0Out = 7\<close>, \<^verbatim>\<open>amount1Out = 0\<close> is
  persisted with \<^verbatim>\<open>amountIn = "0"\<close>, not the nonzero input amount \<^verbatim>\<open>"5"\<close>, although
  the input side is recorded as \<^verbatim>\<open>token1\<close>: the rendering \<^verbatim>\<open>"0"\<close> of a zero amount
  is a non-empty string, so the \<^verbatim>\<open>||\<close> fallback to the other side is never taken.
\<close>

theorem Swap_handler_side1_input_lost:
  "map (\<lambda>s. (amountIn s, tokenIn s, amountOut s, tokenOut s))
     (swaps (snd (Swap_handler example_db ''pool1'' ''trader'' 0 5 7 0))) =
   [(''0'', ''token1'', ''7'', ''token0'')]"
  by (simp add: Swap_handler_def pool_findUnique_address_def example_db_def or_string_def
      toString_nat_digit digit_char_def)

lemma token_upsert_pools: "pools (fst (token_upsert d address meta)) = pools d"
  by (simp add: token_upsert_def Let_def split: option.splits)

lemma PairCreated_replay:
  assumes "fst (PairCreated_handler getTokenMeta ix tknA tknB pair) = None"
  shows "fst (PairCreated_handler getTokenMeta
                (snd (PairCreated_handler getTokenMeta ix tknA tknB pair)) tknA tknB pair) =
         Some (UniqueConstraintFailed ''Pool_address_key'')"
proof -
  from assms obtain metaA metaB where meta: "getTokenMeta tknA = Some metaA"
      "getTokenMeta tknB = Some metaB"
    by (auto simp: PairCreated_handler_def split: option.splits)
  obtain d1 tA where u1: "token_upsert (store ix) tknA metaA = (d1, tA)" by fastforce
  obtain d2 tB where u2: "token_upsert d1 tknB metaB = (d2, tB)" by fastforce
  from assms meta u1 u2 obtain d3 where
    c: "pool_create d2 pair (token_id tA) (token_id tB) = Inr d3"
    and r: "snd (PairCreated_handler getTokenMeta ix tknA tknB pair) =
            \<lparr>store = d3, listening = listening ix @ [pair]\<rparr>"
    by (auto simp: PairCreated_handler_def split: sum.splits)
  from c have in3: "find (\<lambda>p. pool_address p = pair) (pools d3) \<noteq> None"
    by (auto simp: pool_create_def find_None_iff split: if_splits)
  obtain d4 tA' where u3: "token_upsert d3 tknA metaA = (d4, tA')" by fastforce
  obtain d5 tB' where u4: "token_upsert d4 tknB metaB = (d5, tB')" by fastforce
  from u3 u4 have "pools d5 = pools d3"
    using token_upsert_pools[of d3 tknA metaA] token_upsert_pools[of d4 tknB metaB] by simp
  with in3 have "pool_create d5 pair (token_id tA') (token_id tB') =
      Inl (UniqueConstraintFailed ''Pool_address_key'')"
    by (simp add: pool_create_def)
  with meta u3 u4 r show ?thesis
    by (simp add: PairCreated_handler_def)
qed

text \<open>
  Claim C4, at the input it fails on. The first \<^verbatim>\<open>PairCreated(A, B, P)\<close> event on an
  empty store is handled without error; handling the same event again ends with the
  store's unique-constraint error on \<^verbatim>\<open>Pool.address\<close>, raised by
  \<^verbatim>\<open>prisma.pool.create\<close>, instead of completing as a no-op. The rows are the same
  after the second handling as after the first.
\<close>

theorem PairCreated_replay_raises:
  "fst (PairCreated_handler example_meta empty_indexer ''A'' ''B'' ''P'') = None \<and>
   fst (PairCreated_handler example_meta
          (snd (PairCreated_handler example_meta empty_indexer ''A'' ''B'' ''P''))
          ''A'' ''B'' ''P'') = Some (UniqueConstraintFailed ''Pool_address_key'') \<and>
   snd (PairCreated_handler example_meta
          (snd (PairCreated_handler example_meta empty_indexer ''A'' ''B'' ''P''))
          ''A'' ''B'' ''P'') = snd (PairCreated_handler example_meta empty_indexer ''A'' ''B'' ''P'')"
  by (simp add: PairCreated_handler_def example_meta_def empty_indexer_def token_upsert_def
      pool_create_def next_id_def Let_def)

text \<open>Handling a \<^verbatim>\<open>PairCreated\<close> event, whether it ends by an error or not, keeps
  token addresses and pool addresses unique.\<close>

lemma token_upsert_addresses:
  assumes "distinct (map token_address (tokens d))"
  shows "distinct (map token_address (tokens (fst (token_upsert d address meta))))"
proof (cases "find (\<lambda>t. token_address t = address) (tokens d)")
  case None
  then have "address \<notin> token_address ` set (tokens d)"
    by (auto simp: find_None_iff)
  with None assms show ?thesis by (simp add: token_upsert_def Let_def)
next
  case (Some t)
  with assms show ?thesis by (simp add: token_upsert_def)
qed

lemma pool_create_addresses:
  assumes "distinct (map pool_address (pools d))" "pool_create d address x y = Inr d'"
  shows "distinct (map pool_address (pools d'))" "tokens d' = tokens d"
  using assms
  by (auto simp: pool_create_def find_None_iff split: if_splits)

lemma PairCreated_unique_addresses:
  assumes "distinct (map token_address (tokens (store ix)))"
    and "distinct (map pool_address (pools (store ix)))"
  shows "distinct (map token_address
           (tokens (store (snd (PairCreated_handler getTokenMeta ix tknA tknB pair))))) \<and>
         distinct (map pool_address
           (pools (store (snd (PairCreated_handler getTokenMeta ix tknA tknB pair)))))"
proof (cases "getTokenMeta tknA")
  case None
  with assms show ?thesis by (simp add: PairCreated_handler_def)
next
  case A: (Some metaA)
  show ?thesis
  proof (cases "getTokenMeta tknB")
    case None
    with A assms show ?thesis by (simp add: PairCreated_handler_def)
  next
    case B: (Some metaB)
    obtain d1 tA where u1: "token_upsert (store ix) tknA metaA = (d1, tA)" by fastforce
    obtain d2 tB where u2: "token_upsert d1 tknB metaB = (d2, tB)" by fastforce
    from token_upsert_addresses[OF assms(1), of tknA metaA] u1
    have t1: "distinct (map token_address (tokens d1))" by simp
    from token_upsert_addresses[OF t1, of tknB metaB] u2
    have t2: "distinct (map token_address (tokens d2))" by simp
    from token_upsert_pools[of "store ix" tknA metaA] token_upsert_pools[of d1 tknB metaB] u1 u2
    have "pools d2 = pools (store ix)" by simp
    with assms(2) have p2: "distinct (map pool_address (pools d2))" by simp
    show ?thesis
    proof (cases "pool_create d2 pair (token_id tA) (token_id tB)")
      case (Inl e)
      with A B u1 u2 t2 p2 show ?thesis by (simp add: PairCreated_handler_def)
    next
      case (Inr d3)
      from pool_create_addresses[OF p2 Inr] t2
      have "distinct (map pool_address (pools d3))" "distinct (map token_address (tokens d3))"
        by simp_all
      with A B u1 u2 Inr show ?thesis by (simp add: PairCreated_handler_def)
    qed
  qed
qed

subsection \<open>Portfolio\<close>

text \<open>
  Claim C9, at the input it fails on. A user holds one position in pool 1 and one in
  pool 2; the pools are distinct and over distinct tokens, but both are a
  \<^verbatim>\<open>USDC\<close>/\<^verbatim>\<open>WETH\<close> pair by symbol. The response has a single group, labelled with
  pool 1, counting both positions and summing the amounts of both pools.
\<close>

theorem portfolio_merges_pools_with_equal_symbols:
  "portfolio_endpoint example_Number toString_int (Some same_symbols_db) ''alice'' =
   Ok [\<lparr>entry_pool = ''USDC-WETH'', entry_poolId = 1,
        entry_tokenA = \<lparr>json_id = 1, json_address = ''0xa1'', json_symbol = ''USDC'',
                        json_name = None, json_decimals = ''6''\<rparr>,
        entry_tokenB = \<lparr>json_id = 2, json_address = ''0xb1'', json_symbol = ''WETH'',
                        json_name = None, json_decimals = ''18''\<rparr>,
        liquidityProvided_tokenA = ''150'', liquidityProvided_tokenB = ''3'',
        positionsCount = 2\<rparr>]"
  by (simp add: portfolio_endpoint_def liquidity_findMany_def same_symbols_db_def
      map_filter_simps include_tokens_def find_token_by_id_def group_position_def Let_def
      liquidity_row.extend_def pool_row.extend_def token_to_json_def example_Number_def
      StringToBigInt_def digit_val_def toString_int_def toString_nat.simps digit_char_def)

subsection \<open>Hop bounds\<close>

lemma findOptimalPath_allPaths:
  "allPaths (findOptimalPath q ps a b amt) =
     map route_entry (surviving q amt (findAllPathsBFS (buildTokenGraph ps) a b 4))"
proof (cases "findAllPathsBFS (buildTokenGraph ps) a b 4 = []")
  case True
  then show ?thesis by (simp add: findOptimalPath_def surviving_Nil)
next
  case False
  let ?found = "findAllPathsBFS (buildTokenGraph ps) a b 4"
  let ?init = "\<lparr>result = \<lparr>direct = None, optimal = None, allPaths = []\<rparr>,
               bestPath = None, bestOutput = ''0''\<rparr>"
  have "bestOutput ?init = toString_nat 0" by (simp add: toString_nat_0)
  from evaluate_loop[OF this, of q amt ?found]
  have "allPaths (result (foldl (evaluate_path q amt) ?init ?found)) =
          map route_entry (surviving q amt ?found)"
    by simp
  with False show ?thesis
    by (auto simp: findOptimalPath_def Let_def split: option.splits)
qed

lemma line_db_four_hops:
  "findAllPathsBFS (buildTokenGraph (pool_findMany line_db)) ''A'' ''E'' 4 =
      [[''A'', ''B'', ''C'', ''D'', ''E'']]"
  by code_simp

lemma line_db_three_hops:
  "findAllPathsBFS (buildTokenGraph (pool_findMany line_db)) ''A'' ''E'' 3 = []"
  by code_simp

lemma line_db_optimal:
  "optimal_path_endpoint unit_quote (Some line_db) ''A'' ''E'' None =
     Ok \<lparr>direct = None,
         optimal = Some \<lparr>route_path = [''A'', ''B'', ''C'', ''D'', ''E''], expectedOutput = ''1'',
                          hops = 4, gasEstimate = ''540000''\<rparr>,
         allPaths = [\<lparr>route_path = [''A'', ''B'', ''C'', ''D'', ''E''], expectedOutput = ''1'',
                      hops = 4, gasEstimate = ''540000''\<rparr>]\<rparr>"
  by (simp add: optimal_path_endpoint_def findOptimalPath_def line_db_four_hops Let_def
      evaluate_path_def unit_quote_def last_opt_def bigint_gt_string_def StringToBigInt_def
      digit_val_def toString_nat.simps toString_int_def estimateMultiHopGas_def digit_char_def)

text \<open>
  Claim C6 fails as stated. The optimal-path request takes no \<^verbatim>\<open>maxHops\<close>; on the line
  A-B-C-D-E it reports the four-hop route from A to E, which an enumeration with
  \<open>H = 3\<close> does not contain: it enumerates with \<open>H = 4\<close>. And a supplied
  \<^verbatim>\<open>maxHops\<close> of 0 gives the all-paths request \<open>H = 3\<close>, not 0.
\<close>

theorem hop_bound_counterexample:
  "optimal_path_endpoint unit_quote (Some line_db) ''A'' ''E'' None =
     Ok \<lparr>direct = None,
         optimal = Some \<lparr>route_path = [''A'', ''B'', ''C'', ''D'', ''E''], expectedOutput = ''1'',
                          hops = 4, gasEstimate = ''540000''\<rparr>,
         allPaths = [\<lparr>route_path = [''A'', ''B'', ''C'', ''D'', ''E''], expectedOutput = ''1'',
                      hops = 4, gasEstimate = ''540000''\<rparr>]\<rparr> \<and>
   findAllPathsBFS (buildTokenGraph (pool_findMany line_db)) ''A'' ''E'' 3 = [] \<and>
   all_paths_maxHops (Some 0) = 3"
  using line_db_optimal line_db_three_hops by (simp add: all_paths_maxHops_def)

text \<open>
  Claim C6, amended. For the all-paths request the hop bound \<open>H\<close> is 3 when
  \<^verbatim>\<open>maxHops\<close> is not supplied (or does not parse), it is the supplied value clamped to
  the ceiling 4 when that value is a nonzero integer, and it never exceeds 4; the
  request enumerates with that bound. The optimal-path request has no \<^verbatim>\<open>maxHops\<close>
  and always enumerates with \<open>H = 4\<close>: the paths it reports are the surviving ones of
  the enumeration with bound 4.
\<close>

theorem hop_bound_of_requests:
  "all_paths_maxHops None = 3 \<and>
   (\<forall>n. n \<noteq> 0 \<longrightarrow> all_paths_maxHops (Some n) = min n 4) \<and>
   (\<forall>parsed. all_paths_maxHops parsed \<le> 4) \<and>
   all_paths_endpoint (Some d) a b parsed =
     Ok \<lparr>body_tokenA = a, body_tokenB = b, body_maxHops = all_paths_maxHops parsed,
         pathsFound = length (findAllPathsBFS (buildTokenGraph (pool_findMany d)) a b
                                (all_paths_maxHops parsed)),
         body_paths = map (\<lambda>path. \<lparr>info_path = path, info_hops = int (length path) - 1,
                                    info_tokens = length path\<rparr>)
                        (findAllPathsBFS (buildTokenGraph (pool_findMany d)) a b
                           (all_paths_maxHops parsed))\<rparr> \<and>
   (\<forall>res. optimal_path_endpoint q (Some d) a b amount = Ok res \<longrightarrow>
      map route_path (allPaths res) =
        map fst (surviving q (case amount of None \<Rightarrow> ''1000000000000000000'' | Some x \<Rightarrow> x)
                   (findAllPathsBFS (buildTokenGraph (pool_findMany d)) a b 4)))"
proof (intro conjI allI impI)
  show "all_paths_maxHops None = 3" by (simp add: all_paths_maxHops_def)
  show "all_paths_maxHops (Some n) = min n 4" if "n \<noteq> 0" for n
    using that by (simp add: all_paths_maxHops_def)
  show "all_paths_maxHops parsed \<le> 4" for parsed
    by (simp add: all_paths_maxHops_def)
  show "all_paths_endpoint (Some d) a b parsed =
     Ok \<lparr>body_tokenA = a, body_tokenB = b, body_maxHops = all_paths_maxHops parsed,
         pathsFound = length (findAllPathsBFS (buildTokenGraph (pool_findMany d)) a b
                                (all_paths_maxHops parsed)),
         body_paths = map (\<lambda>path. \<lparr>info_path = path, info_hops = int (length path) - 1,
                                    info_tokens = length path\<rparr>)
                        (findAllPathsBFS (buildTokenGraph (pool_findMany d)) a b
                           (all_paths_maxHops parsed))\<rparr>"
    by (simp add: all_paths_endpoint_def findAllPaths_def Let_def)
  show "map route_path (allPaths res) =
        map fst (surviving q (case amount of None \<Rightarrow> ''1000000000000000000'' | Some x \<Rightarrow> x)
                   (findAllPathsBFS (buildTokenGraph (pool_findMany d)) a b 4))"
    if "optimal_path_endpoint q (Some d) a b amount = Ok res" for res
    using that
    by (auto simp: optimal_path_endpoint_def findOptimalPath_allPaths route_entry_def comp_def)
qed

theorem hop_bound_of_requests_witness:
  "(7::int) \<noteq> 0 \<and> all_paths_maxHops (Some 7) = min 7 4 \<and>
   optimal_path_endpoint unit_quote (Some line_db) ''A'' ''E'' None =
     Ok \<lparr>direct = None,
         optimal = Some \<lparr>route_path = [''A'', ''B'', ''C'', ''D'', ''E''], expectedOutput = ''1'',
                          hops = 4, gasEstimate = ''540000''\<rparr>,
         allPaths = [\<lparr>route_path = [''A'', ''B'', ''C'', ''D'', ''E''], expectedOutput = ''1'',
                      hops = 4, gasEstimate = ''540000''\<rparr>]\<rparr> \<and>
   [[''A'', ''B'', ''C'', ''D'', ''E'']] = map fst (surviving unit_quote ''1000000000000000000''
        (findAllPathsBFS (buildTokenGraph (pool_findMany line_db)) ''A'' ''E'' 4))"
proof -
  note inst = hop_bound_of_requests[of _ _ _ _ unit_quote None]
  have "(7::int) \<noteq> 0" by simp
  moreover from inst[THEN conjunct2, THEN conjunct1, rule_format, of 7]
  have "all_paths_maxHops (Some 7) = min 7 4" by simp
  moreover from inst[of line_db "''A''" "''E''", THEN conjunct2, THEN conjunct2, THEN conjunct2,
      THEN conjunct2, rule_format, OF line_db_optimal]
  have "[[''A'', ''B'', ''C'', ''D'', ''E'']] = map fst (surviving unit_quote ''1000000000000000000''
        (findAllPathsBFS (buildTokenGraph (pool_findMany line_db)) ''A'' ''E'' 4))"
    by simp
  ultimately show ?thesis using line_db_optimal by simp
qed

subsection \<open>Empty results\<close>

lemma connecting_path_last_tradable:
  assumes "connecting_path ps a b p"
  shows "\<exists>x. tradable ps x b"
proof -
  from assms have len: "1 < length p" and l: "last p = b"
    and w: "\<forall>i. Suc i < length p \<longrightarrow> tradable ps (p ! i) (p ! Suc i)"
    by (simp_all add: connecting_path_def)
  from len have "Suc (length p - 2) < length p" by simp
  with w have "tradable ps (p ! (length p - 2)) (p ! Suc (length p - 2))" by blast
  moreover from len have "Suc (length p - 2) = length p - 1" by simp
  moreover from len have "p \<noteq> []" by auto
  then have "p ! (length p - 1) = last p"
    by (simp add: last_conv_nth)
  ultimately show ?thesis using l by auto
qed

text \<open>
  Claim C7 fails as stated. Looking up pool id 2 in a store that has only pool 1 is
  answered with status 404 and the error body \<^verbatim>\<open>Pool not Found\<close>, not with a valid
  empty result.
\<close>

theorem pool_lookup_counterexample:
  "pool_endpoint example_Number (Some example_db) 2 = Fail 404 ''Pool not Found''"
  by (simp add: pool_endpoint_def example_db_def)

text \<open>
  Claim C7, amended. A routing request between two tokens that no path of the pool
  graph connects is answered with a valid result: the optimal-path request with
  \<^verbatim>\<open>direct\<close> and \<^verbatim>\<open>optimal\<close> absent and \<^verbatim>\<open>allPaths\<close> empty, the all-paths request
  with no paths. A lookup of a pool id for which no pool exists is answered with the
  404 error \<^verbatim>\<open>Pool not Found\<close>.
\<close>

theorem empty_results:
  "(\<not> (\<exists>p. connecting_path (pool_findMany d) a b p) \<longrightarrow>
      optimal_path_endpoint q (Some d) a b amount =
        Ok \<lparr>direct = None, optimal = None, allPaths = []\<rparr> \<and>
      all_paths_endpoint (Some d) a b parsed =
        Ok \<lparr>body_tokenA = a, body_tokenB = b, body_maxHops = all_paths_maxHops parsed,
            pathsFound = 0, body_paths = []\<rparr>) \<and>
   (find (\<lambda>p. pool_id p = ID) (pools d) = None \<longrightarrow>
      pool_endpoint Number (Some d) ID = Fail 404 ''Pool not Found'')"
proof (intro conjI impI)
  assume none: "\<not> (\<exists>p. connecting_path (pool_findMany d) a b p)"
  from no_connecting_path_empty[OF none]
  show "optimal_path_endpoint q (Some d) a b amount =
        Ok \<lparr>direct = None, optimal = None, allPaths = []\<rparr>"
    by (simp add: optimal_path_endpoint_def findOptimalPath_def)
  from no_connecting_path_empty[OF none]
  show "all_paths_endpoint (Some d) a b parsed =
        Ok \<lparr>body_tokenA = a, body_tokenB = b, body_maxHops = all_paths_maxHops parsed,
            pathsFound = 0, body_paths = []\<rparr>"
    by (simp add: all_paths_endpoint_def findAllPaths_def)
next
  assume "find (\<lambda>p. pool_id p = ID) (pools d) = None"
  then show "pool_endpoint Number (Some d) ID = Fail 404 ''Pool not Found''"
    by (simp add: pool_endpoint_def)
qed

theorem empty_results_witness:
  "\<not> (\<exists>p. connecting_path (pool_findMany example_db) ''A'' ''Z'' p) \<and>
   optimal_path_endpoint example_quote (Some example_db) ''A'' ''Z'' None =
     Ok \<lparr>direct = None, optimal = None, allPaths = []\<rparr> \<and>
   find (\<lambda>p. pool_id p = 2) (pools example_db) = None \<and>
   pool_endpoint example_Number (Some example_db) 2 = Fail 404 ''Pool not Found''"
proof -
  have pf: "pool_findMany example_db =
      [example_pool 1 (example_token 1 ''A'') (example_token 2 ''B'')\<lparr>pool_address := ''pool1''\<rparr>]"
    by (simp add: pool_findMany_def example_db_def map_filter_simps include_tokens_def
        find_token_by_id_def example_token_def example_pool_def pool_row.extend_def)
  have "\<not> tradable (pool_findMany example_db) x ''Z''" for x
    unfolding pf by (simp add: tradable_def example_pool_def example_token_def)
  with connecting_path_last_tradable
  have h1: "\<not> (\<exists>p. connecting_path (pool_findMany example_db) ''A'' ''Z'' p)" by blast
  have h2: "find (\<lambda>p. pool_id p = 2) (pools example_db) = None"
    by (simp add: example_db_def)
  from empty_results[of example_db "''A''" "''Z''" example_quote None _ 2 example_Number] h1 h2
  show ?thesis by blast
qed

subsection \<open>Validation of the multi-hop quote request\<close>

text \<open>
  Claim C10. If the \<^verbatim>\<open>path\<close> of the request body is not an array or has fewer than
  two elements, the reply is the 400 error \<^verbatim>\<open>Invalid path\<close> whatever the router
  would answer: the router is not consulted. Otherwise the reply is never that
  validation error: it is the quote, or the 500 error of a failed quote.
\<close>

theorem quote_validation:
  "(\<not> isArray path_field \<or> length (elements path_field) < 2 \<longrightarrow>
      (\<forall>getAmountsOut. multi_hop_quote_endpoint getAmountsOut path_field amountIn_field =
         Fail 400 ''Invalid path'')) \<and>
   (\<not> (\<not> isArray path_field \<or> length (elements path_field) < 2) \<longrightarrow>
      (\<forall>getAmountsOut.
         multi_hop_quote_endpoint getAmountsOut path_field amountIn_field \<noteq>
           Fail 400 ''Invalid path'' \<and>
         (multi_hop_quote_endpoint getAmountsOut path_field amountIn_field =
            Fail 500 ''Failed to get quote'' \<or>
          (\<exists>body. multi_hop_quote_endpoint getAmountsOut path_field amountIn_field = Ok body))))"
proof (cases "\<not> isArray path_field \<or> length (elements path_field) < 2")
  case True
  then have "multi_hop_quote_endpoint g path_field amountIn_field = Fail 400 ''Invalid path''"
    for g
    by (simp add: multi_hop_quote_endpoint_def)
  with True show ?thesis by blast
next
  case False
  have "multi_hop_quote_endpoint g path_field amountIn_field = Fail 500 ''Failed to get quote'' \<or>
        (\<exists>body. multi_hop_quote_endpoint g path_field amountIn_field = Ok body)" for g
    using False
    by (auto simp: multi_hop_quote_endpoint_def Let_def split: option.splits)
  moreover have "multi_hop_quote_endpoint g path_field amountIn_field \<noteq> Fail 400 ''Invalid path''"
    for g
    using False
    by (auto simp: multi_hop_quote_endpoint_def Let_def split: option.splits)
  ultimately show ?thesis using False by blast
qed

theorem quote_validation_witness:
  "\<not> isArray (Some (JString ''A'' :: int json)) \<and>
   multi_hop_quote_endpoint (\<lambda>amt p. Some [1, 2]) (Some (JString ''A'' :: int json)) None =
     Fail 400 ''Invalid path'' \<and>
   isArray (Some (JArray [JString ''A''] :: int json)) \<and>
   length (elements (Some (JArray [JString ''A''] :: int json))) < 2 \<and>
   multi_hop_quote_endpoint (\<lambda>amt p. Some [1, 2]) (Some (JArray [JString ''A''] :: int json)) None =
     Fail 400 ''Invalid path'' \<and>
   \<not> (\<not> isArray (Some (JArray [JString ''A'', JString ''B''] :: int json)) \<or>
      length (elements (Some (JArray [JString ''A'', JString ''B''] :: int json))) < 2) \<and>
   multi_hop_quote_endpoint (\<lambda>amt p. Some [1, 2])
     (Some (JArray [JString ''A'', JString ''B''] :: int json)) None \<noteq> Fail 400 ''Invalid path''"
proof -
  have a: "\<not> isArray (Some (JString ''A'' :: int json))" by (simp add: isArray_def)
  have b: "length (elements (Some (JArray [JString ''A''] :: int json))) < 2"
    by (simp add: elements_def)
  have c: "\<not> (\<not> isArray (Some (JArray [JString ''A'', JString ''B''] :: int json)) \<or>
      length (elements (Some (JArray [JString ''A'', JString ''B''] :: int json))) < 2)"
    by (simp add: isArray_def elements_def)
  have d: "isArray (Some (JArray [JString ''A''] :: int json))" by (simp add: isArray_def)
  from quote_validation[of "Some (JString ''A'' :: int json)" None] a
  have 1: "multi_hop_quote_endpoint (\<lambda>amt p. Some [1, 2]) (Some (JString ''A'' :: int json)) None =
     Fail 400 ''Invalid path''" by blast
  from quote_validation[of "Some (JArray [JString ''A''] :: int json)" None] b
  have 2: "multi_hop_quote_endpoint (\<lambda>amt p. Some [1, 2])
      (Some (JArray [JString ''A''] :: int json)) None = Fail 400 ''Invalid path''" by blast
  from quote_validation[of "Some (JArray [JString ''A'', JString ''B''] :: int json)" None] c
  have 3: "multi_hop_quote_endpoint (\<lambda>amt p. Some [1, 2])
     (Some (JArray [JString ''A'', JString ''B''] :: int json)) None \<noteq> Fail 400 ''Invalid path''"
    by blast
  from a b c d 1 2 3 show ?thesis by blast
qed

subsection \<open>Chained quotes\<close>

lemma bind_Inr: "bind m f = Inr r \<longleftrightarrow> (\<exists>v. m = Inr v \<and> f v = Inr r)"
  by (cases m) (simp_all add: bind_def)

lemma quantity_out_Inr:
  "quantity_out x y dx = Inr r \<Longrightarrow> 0 < x + dx \<and> r = y - (x * y) div (x + dx)"
  by (auto simp: quantity_out_def bind_Inr checked_mul_def checked_add_def checked_div_def
      checked_sub_def split: if_splits)

lemma quantity_out_mono:
  assumes "quantity_out x y dx1 = Inr r1" "quantity_out x y dx2 = Inr r2" "dx1 \<le> dx2"
  shows "r1 \<le> r2"
proof -
  from quantity_out_Inr[OF assms(1)] have 1: "0 < x + dx1" "r1 = y - (x * y) div (x + dx1)"
    by simp_all
  from quantity_out_Inr[OF assms(2)] have 2: "r2 = y - (x * y) div (x + dx2)" by simp
  from assms(3) have "x + dx1 \<le> x + dx2" by simp
  with 1(1) have "(x * y) div (x + dx2) \<le> (x * y) div (x + dx1)"
    by (rule div_le_mono2)
  then show ?thesis unfolding 1(2) 2 by (rule diff_le_mono2)
qed

lemma getQuantityOut_mono:
  assumes "getQuantityOut amm t a1 = Inr r1" "getQuantityOut amm t a2 = Inr r2" "a1 \<le> a2"
  shows "r1 \<le> r2"
  using assms
  by (auto simp: getQuantityOut_def split: if_splits intro: quantity_out_mono)

lemma getAmountOut_mono:
  assumes "getAmountOut c a1 x y = Inr r1" "getAmountOut c a2 x y = Inr r2" "a1 \<le> a2"
  shows "r1 \<le> r2"
  using assms
  by (auto simp: getAmountOut_def bind_Inr split: option.splits intro: getQuantityOut_mono)

lemma amounts_loop_step:
  "i < length path - 1 \<Longrightarrow>
   amounts_loop c path i amounts =
     bind (getAmountOut c (amounts ! i) (path ! i) (path ! (i + 1)))
       (\<lambda>out. amounts_loop c path (i + 1) (amounts[i + 1 := out]))"
  by (subst amounts_loop.simps) simp

lemma amounts_loop_done:
  "\<not> i < length path - 1 \<Longrightarrow> amounts_loop c path i amounts = Inr amounts"
  by (subst amounts_loop.simps) simp

lemma amounts_loop_mono:
  assumes "amounts_loop c path i am1 = Inr r1" "amounts_loop c path i am2 = Inr r2"
    and "length am1 = length path" "length am2 = length path" "i < length path"
    and "am1 ! i \<le> am2 ! i"
  shows "last r1 \<le> last r2"
  using assms
proof (induction c path i am1 arbitrary: am2 rule: amounts_loop.induct)
  case (1 c path i amounts)
  show ?case
  proof (cases "i < length path - 1")
    case True
    from "1.prems"(1) obtain out1 where
      o1: "getAmountOut c (amounts ! i) (path ! i) (path ! (i + 1)) = Inr out1"
      and l1: "amounts_loop c path (i + 1) (amounts[i + 1 := out1]) = Inr r1"
      unfolding amounts_loop_step[OF True] bind_Inr by blast
    from "1.prems"(2) obtain out2 where
      o2: "getAmountOut c (am2 ! i) (path ! i) (path ! (i + 1)) = Inr out2"
      and l2: "amounts_loop c path (i + 1) (am2[i + 1 := out2]) = Inr r2"
      unfolding amounts_loop_step[OF True] bind_Inr by blast
    from getAmountOut_mono[OF o1 o2 "1.prems"(6)] have le: "out1 \<le> out2" .
    from True have i1: "i + 1 < length path" by simp
    with "1.prems"(3,4) le
    have nxt: "(amounts[i + 1 := out1]) ! (i + 1) \<le> (am2[i + 1 := out2]) ! (i + 1)" by simp
    have len1: "length (amounts[i + 1 := out1]) = length path" using "1.prems"(3) by simp
    have len2: "length (am2[i + 1 := out2]) = length path" using "1.prems"(4) by simp
    from "1.IH"[OF True l1 l2 len1 len2 i1 nxt] show ?thesis .
  next
    case False
    from "1.prems"(1,2) have r: "r1 = amounts" "r2 = am2"
      unfolding amounts_loop_done[OF False] by simp_all
    from False "1.prems"(5) have i: "i = length path - 1" by simp
    from "1.prems"(3,4,5) have ne: "amounts \<noteq> []" "am2 \<noteq> []" by auto
    have "last amounts = amounts ! i" "last am2 = am2 ! i"
      using ne i "1.prems"(3,4) by (simp_all add: last_conv_nth)
    with "1.prems"(6) show ?thesis unfolding r by simp
  qed
qed

text \<open>
  Claim C8. For a fixed path and fixed reserves, whenever the chained quote
  \<^verbatim>\<open>getAmountsOut\<close> succeeds for two input amounts, the smaller input yields a final
  output no greater than that of the larger input.
\<close>

theorem getAmountsOut_mono:
  assumes "getAmountsOut c amountIn1 path = Inr amounts1"
    and "getAmountsOut c amountIn2 path = Inr amounts2"
    and "amountIn1 \<le> amountIn2"
  shows "last amounts1 \<le> last amounts2"
proof -
  from assms(1) have len: "\<not> length path < 2"
    by (auto simp: getAmountsOut_def split: if_splits)
  with assms(1,2) have
    l1: "amounts_loop c path 0 ((replicate (length path) 0)[0 := amountIn1]) = Inr amounts1" and
    l2: "amounts_loop c path 0 ((replicate (length path) 0)[0 := amountIn2]) = Inr amounts2"
    by (simp_all add: getAmountsOut_def)
  from len have "0 < length path" by linarith
  with amounts_loop_mono[OF l1 l2] assms(3) show ?thesis by simp
qed

lemma example_quantities:
  "quantity_out 1000 2000 10 = Inr 20" "quantity_out 500 500 20 = Inr 20"
  "quantity_out 1000 2000 100 = Inr 182" "quantity_out 500 500 182 = Inr 134"
  by (simp_all add: bind_def quantity_out_def checked_mul_def checked_add_def checked_div_def
      checked_sub_def)

lemma example_pairs:
  "pairFor example_chain 2 3 = Inr 10" "pairFor example_chain 3 4 = Inr 11"
  by (simp_all add: pairFor_def example_chain_def)

lemma example_contracts:
  "contract_at example_chain 10 =
     Some \<lparr>token0 = 2, token1 = 3, reserve0 = 1000, reserve1 = 2000\<rparr>"
  "contract_at example_chain 11 =
     Some \<lparr>token0 = 3, token1 = 4, reserve0 = 500, reserve1 = 500\<rparr>"
  by (simp_all add: example_chain_def)

lemma example_hops:
  "getAmountOut example_chain 10 2 3 = Inr 20" "getAmountOut example_chain 20 3 4 = Inr 20"
  "getAmountOut example_chain 100 2 3 = Inr 182" "getAmountOut example_chain 182 3 4 = Inr 134"
  by (simp_all add: getAmountOut_def example_pairs example_contracts bind_def getQuantityOut_def
      example_quantities)

lemma example_amounts:
  "getAmountsOut example_chain 10 [2, 3, 4] = Inr [10, 20, 20]"
  "getAmountsOut example_chain 100 [2, 3, 4] = Inr [100, 182, 134]"
  by (simp_all add: getAmountsOut_def amounts_loop.simps example_hops bind_def)


theorem getAmountsOut_mono_witness:
  "getAmountsOut example_chain 10 [2, 3, 4] = Inr [10, 20, 20] \<and>
   getAmountsOut example_chain 100 [2, 3, 4] = Inr [100, 182, 134] \<and>
   (10::nat) \<le> 100 \<and> last [10, 20, 20] \<le> last [100, 182, 134::nat]"
proof -
  have le: "(10::nat) \<le> 100" by simp
  note mono = getAmountsOut_mono[OF example_amounts(1) example_amounts(2) le]
  from example_amounts le mono show ?thesis by blast
qed

subsection \<open>Duplicates in the token graph and in the enumeration\<close>

lemma strict_prefix_snoc_self: "strict_prefix p (p @ [n])"
  by (simp add: strict_prefix_def)

lemma bfs_inv_drop: "bfs_inv (p # queue) found \<Longrightarrow> bfs_inv queue found"
  by (auto simp: bfs_inv_def)

lemma bfs_inv_found:
  assumes "bfs_inv (p # queue) found"
  shows "bfs_inv queue (found @ [p])"
proof -
  from assms have d: "distinct (p # queue)" "distinct found"
    and J: "\<forall>q\<in>set (p # queue). \<forall>q'\<in>set (p # queue). \<not> strict_prefix q q'"
    and K: "\<forall>f\<in>set found. \<forall>q\<in>set (p # queue). \<not> prefix q f"
    by (simp_all add: bfs_inv_def)
  from K have "p \<notin> set found" by auto
  moreover have "\<not> prefix q p" if "q \<in> set queue" for q
  proof
    assume "prefix q p"
    moreover from that d(1) have "q \<noteq> p" by auto
    ultimately have "strict_prefix q p" by (simp add: strict_prefix_def)
    with J that show False by simp
  qed
  ultimately show ?thesis using d J K by (auto simp: bfs_inv_def)
qed

lemma bfs_inv_expand:
  assumes inv: "bfs_inv (p # queue) found" and ns: "distinct ns"
  shows "bfs_inv (queue @ map (\<lambda>n. p @ [n]) (filter (\<lambda>n. n \<notin> set p) ns)) found"
proof -
  let ?kids = "map (\<lambda>n. p @ [n]) (filter (\<lambda>n. n \<notin> set p) ns)"
  from inv have d: "distinct (p # queue)" "distinct found"
    and J: "\<forall>q\<in>set (p # queue). \<forall>q'\<in>set (p # queue). \<not> strict_prefix q q'"
    and K: "\<forall>f\<in>set found. \<forall>q\<in>set (p # queue). \<not> prefix q f"
    by (simp_all add: bfs_inv_def)
  have kid: "\<exists>n. k = p @ [n]" if "k \<in> set ?kids" for k using that by auto
  have dk: "distinct ?kids"
    using ns by (simp add: distinct_map inj_on_def)
  have nq: "k \<notin> set queue" if "k \<in> set ?kids" for k
  proof
    assume "k \<in> set queue"
    moreover from kid[OF that] have "strict_prefix p k"
      by (auto simp: strict_prefix_snoc_self)
    ultimately show False using J by auto
  qed
  have J1: "\<not> strict_prefix q k" if "q \<in> set queue" "k \<in> set ?kids" for q k
  proof
    assume sp: "strict_prefix q k"
    from kid[OF that(2)] obtain n where "k = p @ [n]" by blast
    with sp have "prefix q p" by (auto simp: strict_prefix_def prefix_snoc)
    moreover from that(1) d(1) have "q \<noteq> p" by auto
    ultimately have "strict_prefix q p" by (simp add: strict_prefix_def)
    with J that(1) show False by simp
  qed
  have J2: "\<not> strict_prefix k q" if "q \<in> set queue" "k \<in> set ?kids" for q k
  proof
    assume sp: "strict_prefix k q"
    from kid[OF that(2)] obtain n where "k = p @ [n]" by blast
    then have "strict_prefix p k" by (simp add: strict_prefix_snoc_self)
    from this sp have "strict_prefix p q" by (rule prefix_order.less_trans)
    with J that(1) show False by simp
  qed
  have J3: "\<not> strict_prefix k k'" if "k \<in> set ?kids" "k' \<in> set ?kids" for k k'
  proof
    assume sp: "strict_prefix k k'"
    from kid[OF that(1)] kid[OF that(2)] have "length k = length k'" by auto
    moreover from sp have "length k < length k'"
      by (rule prefix_length_less)
    ultimately show False by simp
  qed
  have K1: "\<not> prefix k f" if "f \<in> set found" "k \<in> set ?kids" for f k
  proof
    assume pk: "prefix k f"
    from kid[OF that(2)] obtain n where "k = p @ [n]" by blast
    then have "prefix p k" by simp
    from this pk have "prefix p f" by (rule prefix_order.trans)
    with K that(1) show False by simp
  qed
  have "distinct (queue @ ?kids)" using d(1) dk nq by auto
  moreover have "\<forall>q\<in>set (queue @ ?kids). \<forall>q'\<in>set (queue @ ?kids). \<not> strict_prefix q q'"
    using J J1 J2 J3 by (auto simp del: set_map set_filter)
  moreover have "\<forall>f\<in>set found. \<forall>q\<in>set (queue @ ?kids). \<not> prefix q f"
    using K K1 by (auto simp del: set_map set_filter)
  ultimately show ?thesis using d(2) unfolding bfs_inv_def by blast
qed

lemma BFS_loop_distinct:
  assumes "\<forall>t. distinct (neighbors_of graph t)"
    and "bfs_inv queue found"
  shows "distinct (BFS_loop graph b H queue visited found)"
  using assms(2)
proof (induction queue visited found rule: BFS_loop_induct[where maxDepth = H and ?end = b and graph = graph])
  case (empty visited paths)
  then show ?case by (simp add: bfs_inv_def)
next
  case (too_long currentPath queue visited paths)
  from too_long.IH[OF bfs_inv_drop[OF too_long.prems]]
  show ?case unfolding BFS_loop_too_long[OF too_long.hyps] .
next
  case (found currentPath queue visited paths)
  from found.IH[OF bfs_inv_found[OF found.prems]]
  show ?case unfolding BFS_loop_found[OF found.hyps] .
next
  case (seen currentPath queue visited paths)
  from seen.IH[OF bfs_inv_drop[OF seen.prems]]
  show ?case unfolding BFS_loop_seen[OF seen.hyps] .
next
  case (expand currentPath queue visited paths)
  from assms(1) have "distinct (neighbors_of graph (last_opt currentPath))" by blast
  from expand.IH[OF bfs_inv_expand[OF expand.prems this]]
  show ?case unfolding BFS_loop_expand[OF expand.hyps] .
qed

lemma findAllPathsBFS_distinct:
  "\<forall>t. distinct (neighbors_of graph t) \<Longrightarrow> distinct (findAllPathsBFS graph a b H)"
  unfolding findAllPathsBFS_def
  by (rule BFS_loop_distinct) (simp_all add: bfs_inv_def)

lemma pool_entries_same_pair:
  "u \<in> set (pool_entries t p) \<Longrightarrow> u \<in> set (pool_entries t p') \<Longrightarrow> same_pair p p'"
  by (auto simp: pool_entries_def same_pair_def split: if_splits)

lemma no_parallel_distinct_entries:
  "no_parallel ps \<Longrightarrow> distinct (concat (map (pool_entries t) ps))"
proof (induction ps)
  case Nil
  show ?case by simp
next
  case (Cons p ps)
  then have ne: "token_address (tokenA p) \<noteq> token_address (tokenB p)"
    and np: "\<forall>p'\<in>set ps. \<not> same_pair p p'" and rest: "no_parallel ps"
    by simp_all
  from ne have "distinct (pool_entries t p)" by (auto simp: pool_entries_def)
  moreover from Cons.IH[OF rest] have "distinct (concat (map (pool_entries t) ps))" .
  moreover have "set (pool_entries t p) \<inter> set (concat (map (pool_entries t) ps)) = {}"
    using np pool_entries_same_pair[of _ t p] by fastforce
  ultimately show ?case by simp
qed

lemma no_parallel_distinct_neighbors:
  assumes "no_parallel ps"
  shows "distinct (neighbors_of (buildTokenGraph ps) t)"
proof (cases t)
  case None
  then show ?thesis by (simp add: neighbors_of_def)
next
  case (Some x)
  with no_parallel_distinct_entries[OF assms] show ?thesis
    by (simp add: neighbors_buildTokenGraph)
qed


lemma dom_add_pool:
  "dom (add_pool g p) = dom g \<union> {token_address (tokenA p), token_address (tokenB p)}"
  by (auto simp: add_pool_def ensure_key_def push_neighbor_def Let_def split: option.splits if_splits)

lemma dom_foldl_add_pool:
  "dom (foldl add_pool g ps) =
     dom g \<union> (\<Union>p\<in>set ps. {token_address (tokenA p), token_address (tokenB p)})"
  by (induction ps arbitrary: g) (auto simp: dom_add_pool)

text \<open>
  Claim C5 fails as stated. Two parallel pools over the pair A-B give token A the
  neighbour array \<open>[B, B]\<close>, where a single pool gives \<open>[B]\<close>; and path
  enumeration over the built graph then emits the path \<open>[A, B]\<close> twice.
\<close>

theorem parallel_pools_counterexample:
  "buildTokenGraph parallel_pools ''A'' = Some [''B'', ''B''] \<and>
   buildTokenGraph [example_pool 1 (example_token 1 ''A'') (example_token 2 ''B'')] ''A'' =
     Some [''B''] \<and>
   findAllPathsBFS (buildTokenGraph parallel_pools) ''A'' ''B'' 3 =
     [[''A'', ''B''], [''A'', ''B'']]"
  by code_simp

text \<open>
  Claim C5, amended. For every pool set the graph builder maps exactly the tokens that
  occur in a pool, each to the list of the tokens directly tradable with it, one
  entry per pool in pool order; as a set, the entries of a token are the tokens that
  share a pool with it, whether one pool or several cover a pair. When no two pools
  cover the same token pair and no pool pairs a token with itself, no list has a
  duplicate entry and path enumeration over the built graph emits no duplicate path.
\<close>

theorem token_graph_adjacency:
  "dom (buildTokenGraph ps) =
     {t. \<exists>p\<in>set ps. token_address (tokenA p) = t \<or> token_address (tokenB p) = t} \<and>
   neighbors_of (buildTokenGraph ps) (Some t) = concat (map (pool_entries t) ps) \<and>
   set (neighbors_of (buildTokenGraph ps) (Some t)) = {u. tradable ps t u} \<and>
   (no_parallel ps \<longrightarrow>
      distinct (neighbors_of (buildTokenGraph ps) (Some t)) \<and>
      distinct (findAllPathsBFS (buildTokenGraph ps) a b H))"
proof (intro conjI impI)
  show "dom (buildTokenGraph ps) =
     {t. \<exists>p\<in>set ps. token_address (tokenA p) = t \<or> token_address (tokenB p) = t}"
    unfolding buildTokenGraph_def dom_foldl_add_pool by auto
  show "neighbors_of (buildTokenGraph ps) (Some t) = concat (map (pool_entries t) ps)"
    by (rule neighbors_buildTokenGraph)
  show "set (neighbors_of (buildTokenGraph ps) (Some t)) = {u. tradable ps t u}"
    by (rule set_neighbors_buildTokenGraph)
next
  assume np: "no_parallel ps"
  then show "distinct (neighbors_of (buildTokenGraph ps) (Some t))"
    by (rule no_parallel_distinct_neighbors)
  from np have "\<forall>t. distinct (neighbors_of (buildTokenGraph ps) t)"
    by (simp add: no_parallel_distinct_neighbors)
  then show "distinct (findAllPathsBFS (buildTokenGraph ps) a b H)"
    by (rule findAllPathsBFS_distinct)
qed

theorem token_graph_adjacency_witness:
  "no_parallel example_pools \<and>
   distinct (neighbors_of (buildTokenGraph example_pools) (Some ''A'')) \<and>
   distinct (findAllPathsBFS (buildTokenGraph example_pools) ''A'' ''C'' 4) \<and>
   neighbors_of (buildTokenGraph example_pools) (Some ''A'') =
     concat (map (pool_entries ''A'') example_pools)"
proof -
  have np: "no_parallel example_pools"
    by (simp add: example_pools_def example_pool_def example_token_def same_pair_def)
  from token_graph_adjacency[of example_pools "''A''" "''A''" "''C''" 4] np
  show ?thesis by blast
qed

end
